(* ===== verification/Prelude.thy ===== *)
theory Prelude
  imports Main "HOL-Library.Word" "HOL-Library.Multiset"
begin

text \<open>
  Shared vocabulary of the development: the Rust integer types as words, Rust's
  \<open>Result\<close> and panics as values, little-endian byte encodings of words, and a byte
  memory indexed by 64-bit guest physical addresses.  The component theories
  (\<open>Wire\<close>, \<open>Transport\<close>, \<open>FileHandle\<close>, \<open>Directory\<close>, \<open>Mount\<close>) are built on
  these definitions and on the lemmas collected here.
\<close>

unbundle bit_operations_syntax

named_theorems layout_simps "sizes and field offsets of the packed wire structures"
named_theorems mem_simps "reading and writing the byte memory"

section \<open>Definitions\<close>

type_synonym u8 = "8 word"

type_synonym u16 = "16 word"

type_synonym u32 = "32 word"

type_synonym u64 = "64 word"

type_synonym i32 = "32 word" \<comment> \<open>read with \<open>sint\<close>\<close>

type_synonym isize = "64 word" \<comment> \<open>read with \<open>sint\<close>; pointer width 64 on every target\<close>

type_synonym usize = "64 word"

type_synonym bytes = "u8 list"

type_synonym pmem = "u64 \<Rightarrow> u8" \<comment> \<open>guest physical memory, byte-addressed\<close>

text \<open>Rust's \<open>Result<T, E>\<close>: a recoverable outcome handed back to the caller.\<close>

datatype ('a, 'e) result = Ok 'a | Err 'e

text \<open>
  A panic aborts the calling kernel subsystem: \<open>unwrap()\<close> of \<open>None\<close>,
  \<open>todo!()\<close>, \<open>expect(msg)\<close> of an \<open>Err\<close>.  \<open>Dangling\<close> is a use of a handle whose
  allocation has been freed, which safe Rust rules out; the handle theory proves it
  never occurs for a held reference.
\<close>

datatype panic = Unwrap_None string | Todo | Expect string | Dangling

type_synonym 'a fallible = "panic + 'a"

definition unwrap :: "string \<Rightarrow> 'a option \<Rightarrow> 'a fallible" where
  "unwrap msg x = (case x of None \<Rightarrow> Inl (Unwrap_None msg) | Some v \<Rightarrow> Inr v)"

definition fbind :: "'a fallible \<Rightarrow> ('a \<Rightarrow> 'b fallible) \<Rightarrow> 'b fallible" where
  "fbind m f = (case m of Inl p \<Rightarrow> Inl p | Inr x \<Rightarrow> f x)"

text \<open>The value part of an outcome that also carries a state.\<close>

definition result_of :: "('r \<times> 's) fallible \<Rightarrow> 'r fallible" where
  "result_of x = map_sum id fst x"

text \<open>\<open>usize::try_into::<isize>()\<close>: the same bits when the value is below \<open>2^63\<close>.\<close>

definition isize_of_usize :: "usize \<Rightarrow> isize option" where
  "isize_of_usize n = (if unat n < 2 ^ 63 then Some n else None)"

text \<open>
  Every target of the code (x86-64, AArch64, RISC-V 64) is little-endian, so a
  field of \<open>n\<close> bytes is stored least significant byte first.
\<close>

fun le_bytes :: "nat \<Rightarrow> 'a::len word \<Rightarrow> bytes" where
  "le_bytes 0 w = []"
| "le_bytes (Suc n) w = ucast w # le_bytes n (drop_bit 8 w)"

fun of_le_bytes :: "bytes \<Rightarrow> 'a::len word" where
  "of_le_bytes [] = 0"
| "of_le_bytes (b # bs) = ucast b OR push_bit 8 (of_le_bytes bs)"

text \<open>A field of a packed layout: \<open>n\<close> bytes at byte offset \<open>off\<close>.\<close>

definition field :: "nat \<Rightarrow> nat \<Rightarrow> bytes \<Rightarrow> 'a::len word" where
  "field off n bs = of_le_bytes (take n (drop off bs))"

text \<open>The reference reading of a little-endian byte string: its positional value in base 256.\<close>

definition le_value :: "bytes \<Rightarrow> nat" where
  "le_value bs = (\<Sum>i<length bs. unat (bs ! i) * 256 ^ i)"

text \<open>
  \<open>read_bytes m a n\<close> reads the \<open>n\<close> bytes from address \<open>a\<close> upwards;
  \<open>write_bytes m a bs\<close> stores \<open>bs\<close> there.  Addresses wrap modulo \<open>2^64\<close>, as
  the hardware's do; a region of at most \<open>2^64\<close> bytes never overlaps itself.
\<close>

definition read_bytes :: "pmem \<Rightarrow> u64 \<Rightarrow> nat \<Rightarrow> bytes" where
  "read_bytes m a n = map (\<lambda>i. m (a + word_of_nat i)) [0..<n]"

definition write_bytes :: "pmem \<Rightarrow> u64 \<Rightarrow> bytes \<Rightarrow> pmem" where
  "write_bytes m a bs = (\<lambda>x. if unat (x - a) < length bs then bs ! unat (x - a) else m x)"

text \<open>Bytes of a Rust \<open>&str\<close>/\<open>String\<close>: the characters of an Isabelle string are bytes.\<close>

definition str_bytes :: "string \<Rightarrow> bytes" where
  "str_bytes s = map (\<lambda>c. word_of_nat (of_char c)) s"

section \<open>Lemmas\<close>

lemma unwrap_simps [simp]:
  "unwrap msg None = Inl (Unwrap_None msg)"
  "unwrap msg (Some v) = Inr v"
  by (simp_all add: unwrap_def)

lemma unwrap_not_Dangling: "unwrap m x \<noteq> Inl Dangling"
  by (cases x) simp_all

lemma fbind_simps [simp]:
  "fbind (Inl p) f = Inl p"
  "fbind (Inr x) f = f x"
  by (simp_all add: fbind_def)

lemma result_of_simps [simp]:
  "result_of (Inl p) = Inl p" "result_of (Inr (r, s)) = Inr r"
  by (simp_all add: result_of_def)

lemma fbind_eq_Inr:
  "fbind m f = Inr y \<longleftrightarrow> (\<exists>x. m = Inr x \<and> f x = Inr y)"
  by (cases m) auto

lemma fbind_eq_Inl:
  "fbind m f = Inl p \<longleftrightarrow> m = Inl p \<or> (\<exists>x. m = Inr x \<and> f x = Inl p)"
  by (cases m) auto

lemma length_le_bytes [simp]: "length (le_bytes n w) = n"
  by (induction n arbitrary: w) auto

lemma le_bytes_numeral [mem_simps]:
  "le_bytes (numeral k) w = ucast w # le_bytes (pred_numeral k) (drop_bit 8 w)"
  by (simp add: numeral_eq_Suc)

lemma of_le_bytes_le_bytes: "(of_le_bytes (le_bytes n w) :: 'a::len word) = take_bit (8 * n) w"
proof (induction n arbitrary: w)
  case 0
  then show ?case by simp
next
  case (Suc n)
  show ?case
    by (rule bit_word_eqI) (auto simp: Suc bit_simps)
qed

lemma of_le_bytes_full [simp]:
  "8 * n = LENGTH('a) \<Longrightarrow> (of_le_bytes (le_bytes n w) :: 'a::len word) = w"
  by (simp add: of_le_bytes_le_bytes)

lemma of_le_bytes_take_bit: "take_bit (8 * length bs) (of_le_bytes bs :: 'a::len word) = of_le_bytes bs"
proof (induction bs)
  case Nil
  then show ?case by simp
next
  case (Cons b bs)
  show ?case
  proof (rule bit_word_eqI)
    fix n
    show "bit (take_bit (8 * length (b # bs)) (of_le_bytes (b # bs) :: 'a word)) n = bit (of_le_bytes (b # bs) :: 'a word) n"
      using Cons.IH [THEN arg_cong [where f = "\<lambda>w. bit w (n - 8)"]]
      by (auto simp: bit_simps dest: bit_imp_le_length)
  qed
qed

lemma le_bytes_of_le_bytes:
  "8 * length bs \<le> LENGTH('a) \<Longrightarrow> le_bytes (length bs) (of_le_bytes bs :: 'a::len word) = bs"
proof (induction bs)
  case Nil
  then show ?case by simp
next
  case (Cons b bs)
  have low: "(ucast (ucast b OR push_bit 8 (of_le_bytes bs :: 'a word)) :: u8) = b"
    using Cons.prems by (intro bit_word_eqI) (auto simp: bit_simps)
  have high: "drop_bit 8 (ucast b OR push_bit 8 (of_le_bytes bs :: 'a word)) = of_le_bytes bs"
  proof (rule bit_word_eqI)
    fix n
    show "bit (drop_bit 8 (ucast b OR push_bit 8 (of_le_bytes bs :: 'a word))) n = bit (of_le_bytes bs :: 'a word) n"
      using of_le_bytes_take_bit [of bs, where 'a = 'a, THEN arg_cong [where f = "\<lambda>w. bit w n"]] Cons.prems
      by (auto simp: bit_simps dest: bit_imp_le_length)
  qed
  from Cons have IH: "le_bytes (length bs) (of_le_bytes bs :: 'a word) = bs" by simp
  show ?case by (simp only: length_Cons le_bytes.simps of_le_bytes.simps low high IH)
qed

lemma le_bytes_of_le_bytes_len [simp]:
  "length xs = n \<Longrightarrow> 8 * n \<le> LENGTH('a) \<Longrightarrow> le_bytes n (of_le_bytes xs :: 'a::len word) = xs"
  using le_bytes_of_le_bytes by blast

lemma take_drop_append_len [simp]:
  "length xs = off \<Longrightarrow> length ys = n \<Longrightarrow> take n (drop off (xs @ ys @ zs)) = ys"
  by simp

lemma take_drop_append_last [simp]:
  "length xs = off \<Longrightarrow> length ys = n \<Longrightarrow> take n (drop off (xs @ ys)) = ys"
  by simp

lemma take_drop_chunk [simp]:
  "m = k + n \<Longrightarrow> take n (drop k bs) @ drop m bs = drop k bs"
  by (metis add.commute append_take_drop_id drop_drop)

lemma take_drop_chunk_assoc [simp]:
  "m = k + n \<Longrightarrow> take n (drop k bs) @ drop m bs @ rest = drop k bs @ rest"
  by (metis append.assoc take_drop_chunk)

lemma length_read_bytes [simp, mem_simps]: "length (read_bytes m a n) = n"
  by (simp add: read_bytes_def)

lemma read_write_bytes_same [mem_simps]:
  assumes "length bs \<le> 2 ^ 64"
  shows "read_bytes (write_bytes m a bs) a (length bs) = bs"
proof (rule nth_equalityI)
  fix i assume i: "i < length (read_bytes (write_bytes m a bs) a (length bs))"
  then have "i < 2 ^ 64" using assms by simp
  then have "unat (word_of_nat i :: u64) = i"
    by (simp add: unat_of_nat take_bit_nat_eq_self)
  with i show "read_bytes (write_bytes m a bs) a (length bs) ! i = bs ! i"
    by (simp add: read_bytes_def write_bytes_def)
qed simp

lemma write_bytes_outside [mem_simps]:
  "length bs \<le> unat (x - a) \<Longrightarrow> write_bytes m a bs x = m x"
  by (simp add: write_bytes_def)

lemma str_bytes_simps [simp]:
  "str_bytes [] = []"
  "str_bytes (c # s) = word_of_nat (of_char c) # str_bytes s"
  "str_bytes (s @ t) = str_bytes s @ str_bytes t"
  "length (str_bytes s) = length s"
  by (simp_all add: str_bytes_def)

lemma le_value_Nil [simp]: "le_value [] = 0"
  by (simp add: le_value_def)

lemma le_value_Cons [simp]: "le_value (b # bs) = unat b + 256 * le_value bs"
  by (simp add: le_value_def sum.lessThan_Suc_shift sum_distrib_left mult_ac del: sum.lessThan_Suc)

lemma ucast_or_push_bit:
  "(ucast (b :: u8) :: 'a::len word) OR push_bit 8 w = ucast b + push_bit 8 w"
proof -
  have "\<not> bit (ucast b :: 'a word) n \<or> \<not> bit (push_bit 8 w) n" for n
    by (auto simp: bit_simps dest: bit_imp_le_length)
  then show ?thesis by (rule disjunctive_add [symmetric])
qed

lemma le_value_less: "le_value bs < 256 ^ length bs"
proof (induction bs)
  case Nil
  then show ?case by simp
next
  case (Cons b bs)
  have "unat b < 256" using unsigned_less [of b, where 'a = nat] by simp
  then show ?case using Cons by simp
qed

lemma of_le_bytes_value: "(of_le_bytes bs :: 'a::len word) = word_of_nat (le_value bs)"
proof (induction bs)
  case Nil
  then show ?case by simp
next
  case (Cons b bs)
  have "(of_le_bytes (b # bs) :: 'a word) = ucast b + push_bit 8 (of_le_bytes bs)"
    by (simp only: of_le_bytes.simps ucast_or_push_bit)
  also have "\<dots> = word_of_nat (unat b) + word_of_nat (le_value bs) * 256"
    by (simp add: Cons push_bit_eq_mult unsigned_ucast_eq)
  finally show ?case by (simp add: mult_ac)
qed

lemma unat_field:
  "8 * n \<le> LENGTH('a) \<Longrightarrow> unat (field off n bs :: 'a::len word) = le_value (take n (drop off bs))"
proof -
  assume n: "8 * n \<le> LENGTH('a)"
  have "(256::nat) ^ length (take n (drop off bs)) \<le> 256 ^ n"
    by (rule power_increasing) simp_all
  with le_value_less have "le_value (take n (drop off bs)) < 256 ^ n"
    by (rule less_le_trans)
  also have "(256::nat) ^ n = 2 ^ (8 * n)" by (simp add: power_mult)
  also have "\<dots> \<le> 2 ^ LENGTH('a)" using n by simp
  finally show ?thesis by (simp add: field_def of_le_bytes_value unat_of_nat)
qed

end
