(* ===== verification/Wire.thy ===== *)
theory Wire
  imports Prelude
begin

text \<open>
  The wire protocol of \<open>src/src/fs/uhyve.rs\<close> (lines 56--154): the six port numbers,
  the six \<open>#[repr(C, packed)]\<close> request structures with their constructors, and their
  byte layout.  A structure is a record whose fields have the Rust widths
  (\<open>i32\<close> as \<open>32 word\<close>, pointers, \<open>usize\<close> and \<open>isize\<close> as \<open>64 word\<close>); its
  layout is the concatenation of the little-endian encodings of its fields in
  declaration order with no padding.  The external enumerations the code converts
  with \<open>num::ToPrimitive\<close>/\<open>num::FromPrimitive\<close> (\<open>SeekWhence\<close>, \<open>IoError\<close>) are
  modelled from the specification.
\<close>

section \<open>Definitions\<close>

definition UHYVE_PORT_WRITE :: u16 where "UHYVE_PORT_WRITE = 0x400"

definition UHYVE_PORT_OPEN :: u16 where "UHYVE_PORT_OPEN = 0x440"

definition UHYVE_PORT_CLOSE :: u16 where "UHYVE_PORT_CLOSE = 0x480"

definition UHYVE_PORT_READ :: u16 where "UHYVE_PORT_READ = 0x500"

definition UHYVE_PORT_LSEEK :: u16 where "UHYVE_PORT_LSEEK = 0x580"

definition UHYVE_PORT_UNLINK :: u16 where "UHYVE_PORT_UNLINK = 0x840"

text \<open>
  \<open>SeekWhence\<close> (crate \<open>fs\<close>): the three conventional seek origins, with
  discriminants 0, 1, 2; \<open>num::ToPrimitive::to_i32\<close> returns the discriminant.
\<close>

datatype SeekWhence = Set | Cur | End

primrec SeekWhence_to_i32 :: "SeekWhence \<Rightarrow> i32 option" where
  "SeekWhence_to_i32 Set = Some 0"
| "SeekWhence_to_i32 Cur = Some 1"
| "SeekWhence_to_i32 End = Some 2"

text \<open>
  \<open>IoError\<close> (crate \<open>fd\<close>): the kernel's error kinds, each with its POSIX errno
  as (positive) discriminant.  \<open>num::FromPrimitive::from_i32\<close> and \<open>from_isize\<close>
  return the variant whose discriminant equals the argument, \<open>None\<close> for any other
  value.
\<close>

datatype IoError = ENOENT | EIO | EBADF | EACCES | EEXIST | ENOTDIR | EISDIR | EINVAL | ENOSYS

primrec IoError_code :: "IoError \<Rightarrow> int" where
  "IoError_code ENOENT = 2"
| "IoError_code EIO = 5"
| "IoError_code EBADF = 9"
| "IoError_code EACCES = 13"
| "IoError_code EEXIST = 17"
| "IoError_code ENOTDIR = 20"
| "IoError_code EISDIR = 21"
| "IoError_code EINVAL = 22"
| "IoError_code ENOSYS = 38"

definition IoError_all :: "IoError list" where
  "IoError_all = [ENOENT, EIO, EBADF, EACCES, EEXIST, ENOTDIR, EISDIR, EINVAL, ENOSYS]"

definition IoError_from_int :: "int \<Rightarrow> IoError option" where
  "IoError_from_int n = find (\<lambda>e. IoError_code e = n) IoError_all"

record SysOpen =
  open_name :: u64
  open_flags :: i32
  open_mode :: i32
  open_ret :: i32

record SysClose =
  close_fd :: i32
  close_ret :: i32

record SysRead =
  read_fd :: i32
  read_buf :: u64
  read_len :: usize
  read_ret :: isize

record SysWrite =
  write_fd :: i32
  write_buf :: u64
  write_len :: usize

record SysLseek =
  lseek_fd :: i32
  lseek_offset :: isize
  lseek_whence :: i32

record SysUnlink =
  unlink_name :: u64
  unlink_ret :: i32

text \<open>
  The constructors.  \<open>SysOpen::new\<close> and \<open>SysUnlink::new\<close> translate the path's
  virtual address with the paging collaborator \<open>v2p\<close> and \<open>unwrap()\<close> the result;
  \<open>SysLseek::new\<close> unwraps \<open>to_i32\<close> of the whence; the others only fill fields.
  Every result field starts at \<open>-1\<close>.
\<close>

definition SysOpen_new :: "(u64 \<Rightarrow> u64 option) \<Rightarrow> u64 \<Rightarrow> i32 \<Rightarrow> i32 \<Rightarrow> SysOpen fallible" where
  "SysOpen_new v2p name flags mode =
     fbind (unwrap ''virtual_to_physical'' (v2p name))
       (\<lambda>pa. Inr \<lparr>open_name = pa, open_flags = flags, open_mode = mode, open_ret = -1\<rparr>)"

definition SysClose_new :: "i32 \<Rightarrow> SysClose" where
  "SysClose_new fd = \<lparr>close_fd = fd, close_ret = -1\<rparr>"

definition SysRead_new :: "i32 \<Rightarrow> u64 \<Rightarrow> usize \<Rightarrow> SysRead" where
  "SysRead_new fd buf len = \<lparr>read_fd = fd, read_buf = buf, read_len = len, read_ret = -1\<rparr>"

definition SysWrite_new :: "i32 \<Rightarrow> u64 \<Rightarrow> usize \<Rightarrow> SysWrite" where
  "SysWrite_new fd buf len = \<lparr>write_fd = fd, write_buf = buf, write_len = len\<rparr>"

definition SysLseek_new :: "i32 \<Rightarrow> isize \<Rightarrow> SeekWhence \<Rightarrow> SysLseek fallible" where
  "SysLseek_new fd offset whence =
     fbind (unwrap ''to_i32'' (SeekWhence_to_i32 whence))
       (\<lambda>w. Inr \<lparr>lseek_fd = fd, lseek_offset = offset, lseek_whence = w\<rparr>)"

definition SysUnlink_new :: "(u64 \<Rightarrow> u64 option) \<Rightarrow> u64 \<Rightarrow> SysUnlink fallible" where
  "SysUnlink_new v2p name =
     fbind (unwrap ''virtual_to_physical'' (v2p name))
       (\<lambda>pa. Inr \<lparr>unlink_name = pa, unlink_ret = -1\<rparr>)"

definition encode_SysOpen :: "SysOpen \<Rightarrow> bytes" where
  "encode_SysOpen r = le_bytes 8 (open_name r) @ le_bytes 4 (open_flags r)
     @ le_bytes 4 (open_mode r) @ le_bytes 4 (open_ret r)"

definition decode_SysOpen :: "bytes \<Rightarrow> SysOpen" where
  "decode_SysOpen bs = \<lparr>open_name = field 0 8 bs, open_flags = field 8 4 bs,
     open_mode = field 12 4 bs, open_ret = field 16 4 bs\<rparr>"

definition encode_SysClose :: "SysClose \<Rightarrow> bytes" where
  "encode_SysClose r = le_bytes 4 (close_fd r) @ le_bytes 4 (close_ret r)"

definition decode_SysClose :: "bytes \<Rightarrow> SysClose" where
  "decode_SysClose bs = \<lparr>close_fd = field 0 4 bs, close_ret = field 4 4 bs\<rparr>"

definition encode_SysRead :: "SysRead \<Rightarrow> bytes" where
  "encode_SysRead r = le_bytes 4 (read_fd r) @ le_bytes 8 (read_buf r)
     @ le_bytes 8 (read_len r) @ le_bytes 8 (read_ret r)"

definition decode_SysRead :: "bytes \<Rightarrow> SysRead" where
  "decode_SysRead bs = \<lparr>read_fd = field 0 4 bs, read_buf = field 4 8 bs,
     read_len = field 12 8 bs, read_ret = field 20 8 bs\<rparr>"

definition encode_SysWrite :: "SysWrite \<Rightarrow> bytes" where
  "encode_SysWrite r = le_bytes 4 (write_fd r) @ le_bytes 8 (write_buf r) @ le_bytes 8 (write_len r)"

definition decode_SysWrite :: "bytes \<Rightarrow> SysWrite" where
  "decode_SysWrite bs = \<lparr>write_fd = field 0 4 bs, write_buf = field 4 8 bs,
     write_len = field 12 8 bs\<rparr>"

definition encode_SysLseek :: "SysLseek \<Rightarrow> bytes" where
  "encode_SysLseek r = le_bytes 4 (lseek_fd r) @ le_bytes 8 (lseek_offset r) @ le_bytes 4 (lseek_whence r)"

definition decode_SysLseek :: "bytes \<Rightarrow> SysLseek" where
  "decode_SysLseek bs = \<lparr>lseek_fd = field 0 4 bs, lseek_offset = field 4 8 bs,
     lseek_whence = field 12 4 bs\<rparr>"

definition encode_SysUnlink :: "SysUnlink \<Rightarrow> bytes" where
  "encode_SysUnlink r = le_bytes 8 (unlink_name r) @ le_bytes 4 (unlink_ret r)"

definition decode_SysUnlink :: "bytes \<Rightarrow> SysUnlink" where
  "decode_SysUnlink bs = \<lparr>unlink_name = field 0 8 bs, unlink_ret = field 8 4 bs\<rparr>"

text \<open>
  \<open>uhyve_send<T>\<close> is generic in the request type; the host tells the six
  structures apart by the port alone.  \<open>wire\<close> collects them, \<open>wire_port\<close> is the
  port each operation of the code sends its structure to, and \<open>decode_wire\<close> is how
  the host reads the frame behind a port.
\<close>

datatype wire =
    W_Open SysOpen
  | W_Close SysClose
  | W_Read SysRead
  | W_Write SysWrite
  | W_Lseek SysLseek
  | W_Unlink SysUnlink

primrec wire_port :: "wire \<Rightarrow> u16" where
  "wire_port (W_Open r) = UHYVE_PORT_OPEN"
| "wire_port (W_Close r) = UHYVE_PORT_CLOSE"
| "wire_port (W_Read r) = UHYVE_PORT_READ"
| "wire_port (W_Write r) = UHYVE_PORT_WRITE"
| "wire_port (W_Lseek r) = UHYVE_PORT_LSEEK"
| "wire_port (W_Unlink r) = UHYVE_PORT_UNLINK"

primrec encode_wire :: "wire \<Rightarrow> bytes" where
  "encode_wire (W_Open r) = encode_SysOpen r"
| "encode_wire (W_Close r) = encode_SysClose r"
| "encode_wire (W_Read r) = encode_SysRead r"
| "encode_wire (W_Write r) = encode_SysWrite r"
| "encode_wire (W_Lseek r) = encode_SysLseek r"
| "encode_wire (W_Unlink r) = encode_SysUnlink r"

definition frame_size :: "u16 \<Rightarrow> nat" where
  "frame_size p =
     (if p = UHYVE_PORT_OPEN then 20 else if p = UHYVE_PORT_CLOSE then 8
      else if p = UHYVE_PORT_READ then 28 else if p = UHYVE_PORT_WRITE then 20
      else if p = UHYVE_PORT_LSEEK then 16 else if p = UHYVE_PORT_UNLINK then 12 else 0)"

definition decode_wire :: "u16 \<Rightarrow> bytes \<Rightarrow> wire option" where
  "decode_wire p bs =
     (if p = UHYVE_PORT_OPEN then Some (W_Open (decode_SysOpen bs))
      else if p = UHYVE_PORT_CLOSE then Some (W_Close (decode_SysClose bs))
      else if p = UHYVE_PORT_READ then Some (W_Read (decode_SysRead bs))
      else if p = UHYVE_PORT_WRITE then Some (W_Write (decode_SysWrite bs))
      else if p = UHYVE_PORT_LSEEK then Some (W_Lseek (decode_SysLseek bs))
      else if p = UHYVE_PORT_UNLINK then Some (W_Unlink (decode_SysUnlink bs))
      else None)"

section \<open>Lemmas\<close>

lemmas uhyve_ports = UHYVE_PORT_WRITE_def UHYVE_PORT_OPEN_def UHYVE_PORT_CLOSE_def
  UHYVE_PORT_READ_def UHYVE_PORT_LSEEK_def UHYVE_PORT_UNLINK_def

lemma length_encode [simp, layout_simps]:
  "length (encode_SysOpen r) = 20"
  "length (encode_SysClose c) = 8"
  "length (encode_SysRead rd) = 28"
  "length (encode_SysWrite wr) = 20"
  "length (encode_SysLseek l) = 16"
  "length (encode_SysUnlink u) = 12"
  by (simp_all add: encode_SysOpen_def encode_SysClose_def encode_SysRead_def
      encode_SysWrite_def encode_SysLseek_def encode_SysUnlink_def)

lemma decode_encode [simp]:
  "decode_SysOpen (encode_SysOpen r) = r"
  "decode_SysClose (encode_SysClose c) = c"
  "decode_SysRead (encode_SysRead rd) = rd"
  "decode_SysWrite (encode_SysWrite wr) = wr"
  "decode_SysLseek (encode_SysLseek l) = l"
  "decode_SysUnlink (encode_SysUnlink u) = u"
  by (simp_all add: encode_SysOpen_def decode_SysOpen_def encode_SysClose_def decode_SysClose_def
      encode_SysRead_def decode_SysRead_def encode_SysWrite_def decode_SysWrite_def
      encode_SysLseek_def decode_SysLseek_def encode_SysUnlink_def decode_SysUnlink_def field_def)

lemma encode_decode:
  "length bs = 20 \<Longrightarrow> encode_SysOpen (decode_SysOpen bs) = bs"
  "length bs = 8 \<Longrightarrow> encode_SysClose (decode_SysClose bs) = bs"
  "length bs = 28 \<Longrightarrow> encode_SysRead (decode_SysRead bs) = bs"
  "length bs = 20 \<Longrightarrow> encode_SysWrite (decode_SysWrite bs) = bs"
  "length bs = 16 \<Longrightarrow> encode_SysLseek (decode_SysLseek bs) = bs"
  "length bs = 12 \<Longrightarrow> encode_SysUnlink (decode_SysUnlink bs) = bs"
  by (simp_all add: encode_SysOpen_def decode_SysOpen_def encode_SysClose_def decode_SysClose_def
      encode_SysRead_def decode_SysRead_def encode_SysWrite_def decode_SysWrite_def
      encode_SysLseek_def decode_SysLseek_def encode_SysUnlink_def decode_SysUnlink_def field_def)

lemma ports_distinct [simp]:
  "UHYVE_PORT_OPEN \<noteq> UHYVE_PORT_CLOSE" "UHYVE_PORT_OPEN \<noteq> UHYVE_PORT_READ"
  "UHYVE_PORT_OPEN \<noteq> UHYVE_PORT_WRITE" "UHYVE_PORT_OPEN \<noteq> UHYVE_PORT_LSEEK"
  "UHYVE_PORT_OPEN \<noteq> UHYVE_PORT_UNLINK" "UHYVE_PORT_CLOSE \<noteq> UHYVE_PORT_READ"
  "UHYVE_PORT_CLOSE \<noteq> UHYVE_PORT_WRITE" "UHYVE_PORT_CLOSE \<noteq> UHYVE_PORT_LSEEK"
  "UHYVE_PORT_CLOSE \<noteq> UHYVE_PORT_UNLINK" "UHYVE_PORT_READ \<noteq> UHYVE_PORT_WRITE"
  "UHYVE_PORT_READ \<noteq> UHYVE_PORT_LSEEK" "UHYVE_PORT_READ \<noteq> UHYVE_PORT_UNLINK"
  "UHYVE_PORT_WRITE \<noteq> UHYVE_PORT_LSEEK" "UHYVE_PORT_WRITE \<noteq> UHYVE_PORT_UNLINK"
  "UHYVE_PORT_LSEEK \<noteq> UHYVE_PORT_UNLINK"
  by (simp_all add: uhyve_ports)

lemmas ports_distinct_sym [simp] = ports_distinct [symmetric]

lemma frame_size_wire_port [layout_simps]: "frame_size (wire_port w) = length (encode_wire w)"
  by (cases w) (simp_all add: frame_size_def length_encode)

lemma decode_wire_port: "decode_wire p bs = Some w \<Longrightarrow> wire_port w = p"
  by (auto simp: decode_wire_def split: if_splits)

lemma decode_wire_encode_wire [simp]: "decode_wire (wire_port w) (encode_wire w) = Some w"
  by (cases w) (simp_all add: decode_wire_def)

lemma SeekWhence_to_i32_Some: "\<exists>w. SeekWhence_to_i32 wh = Some w"
  by (cases wh) simp_all

lemma IoError_from_int_code [simp]: "IoError_from_int (IoError_code e) = Some e"
  by (cases e) (simp_all add: IoError_from_int_def IoError_all_def)

lemma IoError_from_int_Some: "IoError_from_int n = Some e \<Longrightarrow> IoError_code e = n"
  by (auto simp: IoError_from_int_def dest: find_Some_iff [THEN iffD1])

lemma IoError_code_pos: "0 < IoError_code e"
  by (cases e) simp_all

lemma IoError_from_int_nonpos: "n \<le> 0 \<Longrightarrow> IoError_from_int n = None"
  using IoError_code_pos IoError_from_int_Some
  by (metis not_le option.exhaust)

text \<open>
  C2: every request structure has the packed C layout the host expects: decoding its
  encoding gives it back, and encoding the decoding of any frame of the structure's
  size (20, 8, 28, 20, 16 and 12 bytes) gives the frame back, so no byte of a frame
  is padding and no field overlaps another.
\<close>

theorem packed_layouts_bijective:
  "decode_SysOpen (encode_SysOpen r1) = r1 \<and> (\<forall>bs. length bs = 20 \<longrightarrow> encode_SysOpen (decode_SysOpen bs) = bs) \<and>
   decode_SysClose (encode_SysClose r2) = r2 \<and> (\<forall>bs. length bs = 8 \<longrightarrow> encode_SysClose (decode_SysClose bs) = bs) \<and>
   decode_SysRead (encode_SysRead r3) = r3 \<and> (\<forall>bs. length bs = 28 \<longrightarrow> encode_SysRead (decode_SysRead bs) = bs) \<and>
   decode_SysWrite (encode_SysWrite r4) = r4 \<and> (\<forall>bs. length bs = 20 \<longrightarrow> encode_SysWrite (decode_SysWrite bs) = bs) \<and>
   decode_SysLseek (encode_SysLseek r5) = r5 \<and> (\<forall>bs. length bs = 16 \<longrightarrow> encode_SysLseek (decode_SysLseek bs) = bs) \<and>
   decode_SysUnlink (encode_SysUnlink r6) = r6 \<and> (\<forall>bs. length bs = 12 \<longrightarrow> encode_SysUnlink (decode_SysUnlink bs) = bs)"
  by (simp add: encode_decode)

theorem packed_layouts_bijective_witness:
  "encode_SysClose (decode_SysClose [3, 0, 0, 0, 0xFF, 0xFF, 0xFF, 0xFF]) = [3, 0, 0, 0, 0xFF, 0xFF, 0xFF, 0xFF]
   \<and> decode_SysClose (encode_SysClose \<lparr>close_fd = 3, close_ret = -1\<rparr>) = \<lparr>close_fd = 3, close_ret = -1\<rparr>"
  using packed_layouts_bijective [of _ "\<lparr>close_fd = 3, close_ret = -1\<rparr>"] by simp

text \<open>
  C23.  The packed layouts decode every field as the little-endian positional value
  of its bytes: the bitwise decoder \<open>field\<close> behind each \<open>decode_Sys*\<close> is equivalent
  to the arithmetic reference \<open>le_value\<close> on the field's byte range, at the offsets
  and widths of the \<open>#[repr(C, packed)]\<close> structures.
\<close>

theorem decode_fields_positional:
  "unat (open_name (decode_SysOpen bs)) = le_value (take 8 bs) \<and>
   unat (open_flags (decode_SysOpen bs)) = le_value (take 4 (drop 8 bs)) \<and>
   unat (open_mode (decode_SysOpen bs)) = le_value (take 4 (drop 12 bs)) \<and>
   unat (open_ret (decode_SysOpen bs)) = le_value (take 4 (drop 16 bs)) \<and>
   unat (close_fd (decode_SysClose bs)) = le_value (take 4 bs) \<and>
   unat (close_ret (decode_SysClose bs)) = le_value (take 4 (drop 4 bs)) \<and>
   unat (read_fd (decode_SysRead bs)) = le_value (take 4 bs) \<and>
   unat (read_buf (decode_SysRead bs)) = le_value (take 8 (drop 4 bs)) \<and>
   unat (read_len (decode_SysRead bs)) = le_value (take 8 (drop 12 bs)) \<and>
   unat (read_ret (decode_SysRead bs)) = le_value (take 8 (drop 20 bs)) \<and>
   unat (write_fd (decode_SysWrite bs)) = le_value (take 4 bs) \<and>
   unat (write_buf (decode_SysWrite bs)) = le_value (take 8 (drop 4 bs)) \<and>
   unat (write_len (decode_SysWrite bs)) = le_value (take 8 (drop 12 bs)) \<and>
   unat (lseek_fd (decode_SysLseek bs)) = le_value (take 4 bs) \<and>
   unat (lseek_offset (decode_SysLseek bs)) = le_value (take 8 (drop 4 bs)) \<and>
   unat (lseek_whence (decode_SysLseek bs)) = le_value (take 4 (drop 12 bs)) \<and>
   unat (unlink_name (decode_SysUnlink bs)) = le_value (take 8 bs) \<and>
   unat (unlink_ret (decode_SysUnlink bs)) = le_value (take 4 (drop 8 bs))"
  by (simp add: decode_SysOpen_def decode_SysClose_def decode_SysRead_def decode_SysWrite_def
      decode_SysLseek_def decode_SysUnlink_def unat_field)

end
