(* ===== verification/Transport.thy ===== *)
theory Transport
  imports Wire
begin

text \<open>
  The hypercall transport, \<open>uhyve_send\<close> of \<open>src/src/fs/uhyve.rs\<close> (lines 19--54),
  over an explicit guest physical memory.  The environment fixes what the code does
  not control: the target architecture, the paging collaborator
  \<open>virtual_to_physical\<close> (\<open>v2p\<close>, \<open>None\<close> for an unmapped address), the host,
  and the virtual addresses at which the caller's request structure (\<open>stack_va\<close>)
  and path string (\<open>heap_va\<close>) live.  The host is a function of the hypercalls
  it has served so far, the port, the value written to it, and guest physical
  memory; it returns guest physical memory after the synchronous call, which is how
  it writes its results into the request frame.  The state records guest memory and
  the trace of hypercalls; each trace entry records the port, the value the port
  received, and the request frame as the guest laid it out.
\<close>

datatype arch = X86_64 | AArch64 | RiscV64

record hcall =
  hc_port :: u16
  hc_addr :: u64
  hc_frame :: bytes

type_synonym host_fn = "hcall list \<Rightarrow> u16 \<Rightarrow> u64 \<Rightarrow> pmem \<Rightarrow> pmem"

record env =
  arch :: arch
  v2p :: "u64 \<Rightarrow> u64 option"
  host :: host_fn
  stack_va :: u64
  heap_va :: u64

record tstate =
  mem :: pmem
  trace :: "hcall list"

section \<open>Definitions\<close>

text \<open>
  The value the port receives: on x86-64 \<open>outl\<close> writes the low 32 bits of the
  physical address (\<open>as u32\<close>); on AArch64 the 64-bit address is stored to the
  port's MMIO address.
\<close>

definition port_value :: "arch \<Rightarrow> u64 \<Rightarrow> u64" where
  "port_value a pa = (case a of X86_64 \<Rightarrow> ucast (ucast pa :: u32) | _ \<Rightarrow> pa)"

text \<open>
  \<open>uhyve_send(port, data)\<close>: RISC-V is \<open>todo!()\<close>; otherwise the address of
  \<open>data\<close> (\<open>va\<close>, its size \<open>n\<close>) is translated and unwrapped, and the
  physical address is delivered to the port, upon which the host runs.
\<close>

definition uhyve_send :: "env \<Rightarrow> u16 \<Rightarrow> u64 \<Rightarrow> nat \<Rightarrow> 'a tstate_scheme \<Rightarrow> 'a tstate_scheme fallible" where
  "uhyve_send e port va n s =
     (if arch e = RiscV64 then Inl Todo
      else fbind (unwrap ''virtual_to_physical'' (v2p e va))
        (\<lambda>pa. let a = port_value (arch e) pa in
          Inr (s\<lparr>mem := host e (trace s) port a (mem s),
                 trace := trace s @ [\<lparr>hc_port = port, hc_addr = a, hc_frame = read_bytes (mem s) pa n\<rparr>]\<rparr>)))"

text \<open>
  The pattern of every operation of the file: a request structure is built in a
  local variable, so its bytes lie at the physical address of \<open>stack_va\<close>;
  \<open>uhyve_send\<close> is called on it; afterwards the code reads the local's fields,
  which are the bytes at that address after the host has run.
\<close>

definition send_frame :: "env \<Rightarrow> u16 \<Rightarrow> bytes \<Rightarrow> 'a tstate_scheme \<Rightarrow> (bytes \<times> 'a tstate_scheme) fallible" where
  "send_frame e port req s =
     (case v2p e (stack_va e) of
        None \<Rightarrow> fbind (uhyve_send e port (stack_va e) (length req) s) (\<lambda>s'. Inr (req, s'))
      | Some pa \<Rightarrow>
          fbind (uhyve_send e port (stack_va e) (length req) (s\<lparr>mem := write_bytes (mem s) pa req\<rparr>))
            (\<lambda>s'. Inr (read_bytes (mem s') pa (length req), s')))"

text \<open>
  A host given by its answer to each kind of request: it decodes the frame behind
  the port, answers with a structure of the same kind (a real host can only
  overwrite the frame it was given), and writes the answer back over the frame.
\<close>

record host_spec =
  on_open :: "hcall list \<Rightarrow> SysOpen \<Rightarrow> SysOpen"
  on_close :: "hcall list \<Rightarrow> SysClose \<Rightarrow> SysClose"
  on_read :: "hcall list \<Rightarrow> SysRead \<Rightarrow> SysRead"
  on_write :: "hcall list \<Rightarrow> SysWrite \<Rightarrow> SysWrite"
  on_lseek :: "hcall list \<Rightarrow> SysLseek \<Rightarrow> SysLseek"
  on_unlink :: "hcall list \<Rightarrow> SysUnlink \<Rightarrow> SysUnlink"

primrec serve :: "host_spec \<Rightarrow> hcall list \<Rightarrow> wire \<Rightarrow> wire" where
  "serve hs h (W_Open r) = W_Open (on_open hs h r)"
| "serve hs h (W_Close r) = W_Close (on_close hs h r)"
| "serve hs h (W_Read r) = W_Read (on_read hs h r)"
| "serve hs h (W_Write r) = W_Write (on_write hs h r)"
| "serve hs h (W_Lseek r) = W_Lseek (on_lseek hs h r)"
| "serve hs h (W_Unlink r) = W_Unlink (on_unlink hs h r)"

definition typed_host :: "host_spec \<Rightarrow> host_fn" where
  "typed_host hs h p a m =
     (case decode_wire p (read_bytes m a (frame_size p)) of
        None \<Rightarrow> m
      | Some w \<Rightarrow> write_bytes m a (encode_wire (serve hs h w)))"

text \<open>
  The transport delivers the frame's address exactly when the target is not RISC-V,
  the local request structure is mapped, and its physical address survives the
  port write.
\<close>

definition exact_transport :: "env \<Rightarrow> u64 \<Rightarrow> bool" where
  "exact_transport e pa \<longleftrightarrow>
     arch e \<noteq> RiscV64 \<and> v2p e (stack_va e) = Some pa \<and> port_value (arch e) pa = pa"

text \<open>
  A host that answers every request with the request itself, and an environment on
  AArch64 with identity paging, used by the concrete examples.
\<close>

definition echo_host :: host_spec where
  "echo_host = \<lparr>on_open = (\<lambda>_ r. r), on_close = (\<lambda>_ r. r), on_read = (\<lambda>_ r. r),
     on_write = (\<lambda>_ r. r), on_lseek = (\<lambda>_ r. r), on_unlink = (\<lambda>_ r. r)\<rparr>"

definition demo_host :: host_spec where
  "demo_host = echo_host\<lparr>on_open := (\<lambda>_ r. r\<lparr>open_ret := 3\<rparr>),
     on_close := (\<lambda>_ r. r\<lparr>close_ret := 0\<rparr>), on_unlink := (\<lambda>_ r. r\<lparr>unlink_ret := 0\<rparr>)\<rparr>"

definition demo_env :: "host_spec \<Rightarrow> env" where
  "demo_env hs = \<lparr>arch = AArch64, v2p = Some, host = typed_host hs, stack_va = 0x1000, heap_va = 0x2000\<rparr>"

text \<open>
  A hypercall is well-typed when its frame is a request of the kind its port serves,
  of exactly that request's size; \<open>typed_access\<close> is a step that issues one such
  hypercall.
\<close>

definition hcall_typed :: "hcall \<Rightarrow> bool" where
  "hcall_typed hc \<longleftrightarrow>
     (case decode_wire (hc_port hc) (hc_frame hc) of Some w \<Rightarrow> encode_wire w = hc_frame hc | None \<Rightarrow> False)"

definition typed_access :: "'a tstate_scheme \<Rightarrow> 'a tstate_scheme \<Rightarrow> bool" where
  "typed_access s s' \<longleftrightarrow> (\<exists>hc. trace s' = trace s @ [hc] \<and> hcall_typed hc)"

section \<open>Lemmas\<close>

lemma uhyve_send_RiscV64: "arch e = RiscV64 \<Longrightarrow> uhyve_send e port va n s = Inl Todo"
  by (simp add: uhyve_send_def)

lemma uhyve_send_unmapped:
  "arch e \<noteq> RiscV64 \<Longrightarrow> v2p e va = None \<Longrightarrow> uhyve_send e port va n s = Inl (Unwrap_None ''virtual_to_physical'')"
  by (simp add: uhyve_send_def)

lemma uhyve_send_mapped:
  "arch e \<noteq> RiscV64 \<Longrightarrow> v2p e va = Some pa \<Longrightarrow>
   uhyve_send e port va n s =
     Inr (s\<lparr>mem := host e (trace s) port (port_value (arch e) pa) (mem s),
            trace := trace s @ [\<lparr>hc_port = port, hc_addr = port_value (arch e) pa,
                                 hc_frame = read_bytes (mem s) pa n\<rparr>]\<rparr>)"
  by (simp add: uhyve_send_def Let_def)

lemma uhyve_send_Inr_iff:
  "uhyve_send e port va n s = Inr s' \<longleftrightarrow>
   arch e \<noteq> RiscV64 \<and> (\<exists>pa. v2p e va = Some pa \<and>
     s' = s\<lparr>mem := host e (trace s) port (port_value (arch e) pa) (mem s),
            trace := trace s @ [\<lparr>hc_port = port, hc_addr = port_value (arch e) pa,
                                 hc_frame = read_bytes (mem s) pa n\<rparr>]\<rparr>)"
  by (cases "v2p e va") (auto simp: uhyve_send_def Let_def)

lemma port_value_x86_bound: "unat (port_value X86_64 pa) < 2 ^ 32"
  using take_bit_nat_less_exp [of 32 "unat pa"]
  by (simp add: port_value_def unsigned_ucast_eq unsigned_take_bit_eq)

text \<open>
  C3: on x86-64 the port receives the physical address of the request truncated to
  32 bits, so the host sees the right frame exactly when the frame lies below 4 GiB;
  on AArch64 the address arrives whole.
\<close>

theorem port_value_exact:
  "port_value a pa = pa \<longleftrightarrow> a \<noteq> X86_64 \<or> unat pa < 2 ^ 32"
proof (cases a)
  case X86_64
  have "(ucast (ucast pa :: u32) :: u64) = take_bit 32 pa"
    by (simp add: unsigned_ucast_eq)
  moreover have "take_bit 32 pa = pa \<longleftrightarrow> unat pa < 2 ^ 32"
    by (metis take_bit_nat_eq_self_iff unsigned_take_bit_eq word_unat_eq_iff)
  ultimately show ?thesis using X86_64 by (simp add: port_value_def)
qed (simp_all add: port_value_def)

lemma length_encode_wire_le: "length (encode_wire w) \<le> 28"
  by (cases w) (simp_all add: length_encode)

lemma length_encode_wire_small: "length (encode_wire w) \<le> 2 ^ 64"
  using length_encode_wire_le [of w] by simp

lemma send_frame_RiscV64: "arch e = RiscV64 \<Longrightarrow> send_frame e port req s = Inl Todo"
  by (simp add: send_frame_def uhyve_send_RiscV64 split: option.split)

lemma send_frame_unmapped:
  "arch e \<noteq> RiscV64 \<Longrightarrow> v2p e (stack_va e) = None \<Longrightarrow>
   send_frame e port req s = Inl (Unwrap_None ''virtual_to_physical'')"
  by (simp add: send_frame_def uhyve_send_unmapped)

lemma send_frame_mapped:
  assumes "arch e \<noteq> RiscV64" "v2p e (stack_va e) = Some pa" "length req \<le> 2 ^ 64"
  shows "send_frame e port req s =
    (let m = write_bytes (mem s) pa req; m' = host e (trace s) port (port_value (arch e) pa) m in
     Inr (read_bytes m' pa (length req),
          s\<lparr>mem := m', trace := trace s @ [\<lparr>hc_port = port, hc_addr = port_value (arch e) pa, hc_frame = req\<rparr>]\<rparr>))"
  using assms by (simp add: send_frame_def uhyve_send_mapped read_write_bytes_same Let_def)

lemma send_frame_Inr_mapped:
  "send_frame e port req s = Inr (bs, s') \<Longrightarrow> arch e \<noteq> RiscV64 \<and> (\<exists>pa. v2p e (stack_va e) = Some pa)"
  by (cases "arch e = RiscV64"; cases "v2p e (stack_va e)")
     (simp_all add: send_frame_RiscV64 send_frame_unmapped)

lemma send_frame_not_Dangling: "send_frame e port req s \<noteq> Inl Dangling"
  by (simp add: send_frame_def uhyve_send_def fbind_eq_Inl unwrap_def Let_def split: option.split)

lemma serve_port [simp]: "wire_port (serve hs h w) = wire_port w"
  by (cases w) simp_all

lemma length_encode_serve [simp]: "length (encode_wire (serve hs h w)) = length (encode_wire w)"
  by (metis frame_size_wire_port serve_port)

lemma send_frame_typed_host:
  assumes "exact_transport e pa" and "host e = typed_host hs"
  shows "send_frame e (wire_port w) (encode_wire w) s =
    Inr (encode_wire (serve hs (trace s) w),
         s\<lparr>mem := write_bytes (write_bytes (mem s) pa (encode_wire w)) pa (encode_wire (serve hs (trace s) w)),
           trace := trace s @ [\<lparr>hc_port = wire_port w, hc_addr = pa, hc_frame = encode_wire w\<rparr>]\<rparr>)"
proof -
  from assms(1) have a1: "arch e \<noteq> RiscV64" and a2: "v2p e (stack_va e) = Some pa"
    and a3: "port_value (arch e) pa = pa"
    by (simp_all add: exact_transport_def)
  let ?m = "write_bytes (mem s) pa (encode_wire w)"
  let ?a = "encode_wire (serve hs (trace s) w)"
  have rd: "read_bytes ?m pa (frame_size (wire_port w)) = encode_wire w"
    unfolding frame_size_wire_port by (rule read_write_bytes_same [OF length_encode_wire_small])
  have hst: "host e (trace s) (wire_port w) pa ?m = write_bytes ?m pa ?a"
    using assms(2) by (simp add: typed_host_def rd)
  have rdb: "read_bytes (write_bytes ?m pa ?a) pa (length (encode_wire w)) = ?a"
    by (metis length_encode_serve length_encode_wire_small read_write_bytes_same)
  have sf: "send_frame e (wire_port w) (encode_wire w) s =
    (let m = ?m; m' = host e (trace s) (wire_port w) (port_value (arch e) pa) m in
     Inr (read_bytes m' pa (length (encode_wire w)),
          s\<lparr>mem := m', trace := trace s @ [\<lparr>hc_port = wire_port w, hc_addr = port_value (arch e) pa,
             hc_frame = encode_wire w\<rparr>]\<rparr>))"
    by (rule send_frame_mapped [OF a1 a2 length_encode_wire_small])
  show ?thesis
    unfolding sf Let_def a3 hst rdb ..
qed

lemma send_frame_shape:
  assumes "send_frame e port req s = Inr (bs, s')" and "length req \<le> 2 ^ 64"
  shows "\<exists>m a. s' = s\<lparr>mem := m, trace := trace s @ [\<lparr>hc_port = port, hc_addr = a, hc_frame = req\<rparr>]\<rparr>"
proof -
  from send_frame_Inr_mapped [OF assms(1)] obtain pa
    where a1: "arch e \<noteq> RiscV64" and a2: "v2p e (stack_va e) = Some pa" by blast
  from assms show ?thesis
    by (auto simp: send_frame_mapped [OF a1 a2] Let_def)
qed

theorem port_value_exact_witness:
  "port_value X86_64 0x1000 = 0x1000 \<and> port_value X86_64 0x100001000 \<noteq> 0x100001000"
proof -
  have a: "port_value X86_64 (0x1000 :: u64) = 0x1000"
    using port_value_exact [of X86_64 "0x1000 :: u64"] by simp
  have b: "port_value X86_64 (0x100001000 :: u64) \<noteq> 0x100001000"
    using port_value_exact [of X86_64 "0x100001000 :: u64"] by simp
  from a b show ?thesis ..
qed

lemma demo_env_exact: "exact_transport (demo_env hs) 0x1000 \<and> host (demo_env hs) = typed_host hs"
  by (simp add: exact_transport_def demo_env_def port_value_def)

lemma send_frame_typed_kinds:
  assumes "exact_transport e pa" and "host e = typed_host hs"
  shows "\<exists>s'. send_frame e UHYVE_PORT_READ (encode_SysRead r) s = Inr (encode_SysRead (on_read hs (trace s) r), s')"
    and "\<exists>s'. send_frame e UHYVE_PORT_WRITE (encode_SysWrite wr) s = Inr (encode_SysWrite (on_write hs (trace s) wr), s')"
    and "\<exists>s'. send_frame e UHYVE_PORT_LSEEK (encode_SysLseek l) s = Inr (encode_SysLseek (on_lseek hs (trace s) l), s')"
    and "\<exists>s'. send_frame e UHYVE_PORT_CLOSE (encode_SysClose c) s = Inr (encode_SysClose (on_close hs (trace s) c), s')"
    and "\<exists>s'. send_frame e UHYVE_PORT_OPEN (encode_SysOpen op) s = Inr (encode_SysOpen (on_open hs (trace s) op), s')"
    and "\<exists>s'. send_frame e UHYVE_PORT_UNLINK (encode_SysUnlink u) s = Inr (encode_SysUnlink (on_unlink hs (trace s) u), s')"
  using send_frame_typed_host [OF assms, of "W_Read r" s] send_frame_typed_host [OF assms, of "W_Write wr" s]
    send_frame_typed_host [OF assms, of "W_Lseek l" s] send_frame_typed_host [OF assms, of "W_Close c" s]
    send_frame_typed_host [OF assms, of "W_Open op" s] send_frame_typed_host [OF assms, of "W_Unlink u" s]
  by simp_all

lemma demo_host_simps [simp]:
  "on_open demo_host h r = r\<lparr>open_ret := 3\<rparr>" "on_close demo_host h c = c\<lparr>close_ret := 0\<rparr>"
  "on_unlink demo_host h u = u\<lparr>unlink_ret := 0\<rparr>" "on_read demo_host h rd = rd"
  "on_write demo_host h wr = wr" "on_lseek demo_host h l = l"
  by (simp_all add: demo_host_def echo_host_def)

lemma demo_env_simps [simp]:
  "arch (demo_env hs) = AArch64" "v2p (demo_env hs) = Some" "stack_va (demo_env hs) = 0x1000"
  "heap_va (demo_env hs) = 0x2000" "host (demo_env hs) = typed_host hs"
  by (simp_all add: demo_env_def)

lemma send_frame_demo:
  "send_frame (demo_env hs) (wire_port w) (encode_wire w) s =
    Inr (encode_wire (serve hs (trace s) w),
         s\<lparr>mem := write_bytes (write_bytes (mem s) 0x1000 (encode_wire w)) 0x1000 (encode_wire (serve hs (trace s) w)),
           trace := trace s @ [\<lparr>hc_port = wire_port w, hc_addr = 0x1000, hc_frame = encode_wire w\<rparr>]\<rparr>)"
  by (rule send_frame_typed_host [OF conjunct1 [OF demo_env_exact] conjunct2 [OF demo_env_exact]])

lemmas send_frame_demo_kinds =
  send_frame_demo [where w = "W_Open r" for r, simplified]
  send_frame_demo [where w = "W_Close r" for r, simplified]
  send_frame_demo [where w = "W_Read r" for r, simplified]
  send_frame_demo [where w = "W_Write r" for r, simplified]
  send_frame_demo [where w = "W_Lseek r" for r, simplified]
  send_frame_demo [where w = "W_Unlink r" for r, simplified]

lemma hcall_typed_wire: "hcall_typed \<lparr>hc_port = wire_port w, hc_addr = a, hc_frame = encode_wire w\<rparr>"
  by (simp add: hcall_typed_def)

lemmas hcall_typed_kinds [simp] =
  hcall_typed_wire [where w = "W_Open r" for r, simplified]
  hcall_typed_wire [where w = "W_Close r" for r, simplified]
  hcall_typed_wire [where w = "W_Read r" for r, simplified]
  hcall_typed_wire [where w = "W_Write r" for r, simplified]
  hcall_typed_wire [where w = "W_Lseek r" for r, simplified]
  hcall_typed_wire [where w = "W_Unlink r" for r, simplified]

end
