(* ===== verification/FileHandle.thy ===== *)
theory FileHandle
  imports Transport
begin

text \<open>
  The file handle of \<open>src/src/fs/uhyve.rs\<close> (lines 156--228).
  \<open>UhyveFileHandleInner(fd)\<close> performs the Read, Write and Lseek hypercalls and,
  in its \<open>Drop\<close>, the Close hypercall.  \<open>UhyveFileHandle\<close> is an
  \<open>Arc<SpinMutex<UhyveFileHandleInner>>\<close>: the allocations live in a store
  \<open>arcs\<close> of cells, each with its strong count and the inner descriptor, and a
  handle value is the index of its allocation.  \<open>clone\<close> increments the count; the
  drop of a handle decrements it and, for the last reference, runs the inner
  \<open>Drop\<close> (one Close hypercall) and frees the cell, as \<open>Arc\<close> does.  The list
  \<open>closed\<close> is ghost state: the allocations whose inner value was dropped, in
  order, with their descriptors.

  The spin lock is taken and released inside each of \<open>read\<close>, \<open>write\<close> and
  \<open>lseek\<close>; in a single thread of control it is always free when taken, so these
  definitions do not carry it.  The step relation \<open>fh_step\<close> at the end is the
  system of all handles with the references held by their users.
\<close>

record fh_cell =
  strong :: nat
  inner_fd :: i32

record fstate = tstate +
  arcs :: "nat \<Rightarrow> fh_cell option"
  next_arc :: nat
  closed :: "(nat \<times> i32) list"

type_synonym handle = nat

section \<open>Definitions\<close>

definition Inner_read ::
  "env \<Rightarrow> i32 \<Rightarrow> u64 \<Rightarrow> usize \<Rightarrow> 'a tstate_scheme \<Rightarrow> ((isize, IoError) result \<times> 'a tstate_scheme) fallible" where
  "Inner_read e fd buf len s =
     fbind (send_frame e UHYVE_PORT_READ (encode_SysRead (SysRead_new fd buf len)) s)
       (\<lambda>(bs, s'). let ret = read_ret (decode_SysRead bs) in
          if 0 \<le> sint ret then Inr (Ok ret, s')
          else fbind (unwrap ''from_isize'' (IoError_from_int (sint ret))) (\<lambda>err. Inr (Err err, s')))"

definition Inner_write ::
  "env \<Rightarrow> i32 \<Rightarrow> u64 \<Rightarrow> usize \<Rightarrow> 'a tstate_scheme \<Rightarrow> ((isize, IoError) result \<times> 'a tstate_scheme) fallible" where
  "Inner_write e fd buf len s =
     fbind (send_frame e UHYVE_PORT_WRITE (encode_SysWrite (SysWrite_new fd buf len)) s)
       (\<lambda>(bs, s'). fbind (unwrap ''try_into'' (isize_of_usize (write_len (decode_SysWrite bs))))
          (\<lambda>n. Inr (Ok n, s')))"

definition Inner_lseek ::
  "env \<Rightarrow> i32 \<Rightarrow> isize \<Rightarrow> SeekWhence \<Rightarrow> 'a tstate_scheme \<Rightarrow> ((isize, IoError) result \<times> 'a tstate_scheme) fallible" where
  "Inner_lseek e fd offset whence s =
     fbind (SysLseek_new fd offset whence)
       (\<lambda>req. fbind (send_frame e UHYVE_PORT_LSEEK (encode_SysLseek req) s)
          (\<lambda>(bs, s'). let off = lseek_offset (decode_SysLseek bs) in
             if 0 \<le> sint off then Inr (Ok off, s') else Inr (Err EINVAL, s')))"

definition Inner_drop :: "env \<Rightarrow> i32 \<Rightarrow> 'a tstate_scheme \<Rightarrow> 'a tstate_scheme fallible" where
  "Inner_drop e fd s =
     fbind (send_frame e UHYVE_PORT_CLOSE (encode_SysClose (SysClose_new fd)) s) (\<lambda>(bs, s'). Inr s')"

definition UhyveFileHandle_new :: "i32 \<Rightarrow> 'a fstate_scheme \<Rightarrow> handle \<times> 'a fstate_scheme" where
  "UhyveFileHandle_new fd s =
     (next_arc s, s\<lparr>arcs := (arcs s)(next_arc s \<mapsto> \<lparr>strong = 1, inner_fd = fd\<rparr>),
                   next_arc := Suc (next_arc s)\<rparr>)"

definition with_cell :: "handle \<Rightarrow> 'a fstate_scheme \<Rightarrow> (fh_cell \<Rightarrow> 'b fallible) \<Rightarrow> 'b fallible" where
  "with_cell h s f = (case arcs s h of None \<Rightarrow> Inl Dangling | Some c \<Rightarrow> f c)"

definition UhyveFileHandle_read ::
  "env \<Rightarrow> handle \<Rightarrow> u64 \<Rightarrow> usize \<Rightarrow> 'a fstate_scheme \<Rightarrow> ((isize, IoError) result \<times> 'a fstate_scheme) fallible" where
  "UhyveFileHandle_read e h buf len s = with_cell h s (\<lambda>c. Inner_read e (inner_fd c) buf len s)"

definition UhyveFileHandle_write ::
  "env \<Rightarrow> handle \<Rightarrow> u64 \<Rightarrow> usize \<Rightarrow> 'a fstate_scheme \<Rightarrow> ((isize, IoError) result \<times> 'a fstate_scheme) fallible" where
  "UhyveFileHandle_write e h buf len s = with_cell h s (\<lambda>c. Inner_write e (inner_fd c) buf len s)"

definition UhyveFileHandle_lseek ::
  "env \<Rightarrow> handle \<Rightarrow> isize \<Rightarrow> SeekWhence \<Rightarrow> 'a fstate_scheme \<Rightarrow> ((isize, IoError) result \<times> 'a fstate_scheme) fallible" where
  "UhyveFileHandle_lseek e h offset whence s = with_cell h s (\<lambda>c. Inner_lseek e (inner_fd c) offset whence s)"

definition UhyveFileHandle_clone :: "handle \<Rightarrow> 'a fstate_scheme \<Rightarrow> 'a fstate_scheme fallible" where
  "UhyveFileHandle_clone h s =
     with_cell h s (\<lambda>c. Inr (s\<lparr>arcs := (arcs s)(h \<mapsto> c\<lparr>strong := Suc (strong c)\<rparr>)\<rparr>))"

definition UhyveFileHandle_drop :: "env \<Rightarrow> handle \<Rightarrow> 'a fstate_scheme \<Rightarrow> 'a fstate_scheme fallible" where
  "UhyveFileHandle_drop e h s =
     with_cell h s (\<lambda>c.
       if strong c = 1 then
         fbind (Inner_drop e (inner_fd c) s)
           (\<lambda>s'. Inr (s'\<lparr>arcs := (arcs s')(h := None), closed := closed s' @ [(h, inner_fd c)]\<rparr>))
       else Inr (s\<lparr>arcs := (arcs s)(h \<mapsto> c\<lparr>strong := strong c - 1\<rparr>)\<rparr>))"

text \<open>
  An access through a handle (read, write, lseek) leaves the store alone and adds one
  hypercall on its port.
\<close>

definition accesses :: "u16 \<Rightarrow> 'a fstate_scheme \<Rightarrow> 'a fstate_scheme \<Rightarrow> bool" where
  "accesses port s s' \<longleftrightarrow>
     arcs s' = arcs s \<and> next_arc s' = next_arc s \<and> closed s' = closed s \<and>
     (\<exists>hc. trace s' = trace s @ [hc] \<and> hc_port hc = port)"

text \<open>
  The system state pairs the store with the multiset of handle values its users hold
  (the \<open>UhyveFileHandle\<close> values alive in the kernel).  A step creates a handle
  for a descriptor, clones or drops a held one, or accesses the file through a held
  one.  Only steps that return (no panic) are steps.
\<close>

inductive fh_step :: "env \<Rightarrow> handle multiset \<times> 'a fstate_scheme \<Rightarrow> handle multiset \<times> 'a fstate_scheme \<Rightarrow> bool"
  for e where
  fh_new: "UhyveFileHandle_new fd s = (h, s') \<Longrightarrow> fh_step e (H, s) (add_mset h H, s')"
| fh_clone: "h \<in># H \<Longrightarrow> UhyveFileHandle_clone h s = Inr s' \<Longrightarrow> fh_step e (H, s) (add_mset h H, s')"
| fh_drop: "h \<in># H \<Longrightarrow> UhyveFileHandle_drop e h s = Inr s' \<Longrightarrow> fh_step e (H, s) (H - {#h#}, s')"
| fh_read: "h \<in># H \<Longrightarrow> UhyveFileHandle_read e h buf len s = Inr (r, s') \<Longrightarrow> fh_step e (H, s) (H, s')"
| fh_write: "h \<in># H \<Longrightarrow> UhyveFileHandle_write e h buf len s = Inr (r, s') \<Longrightarrow> fh_step e (H, s) (H, s')"
| fh_lseek: "h \<in># H \<Longrightarrow> UhyveFileHandle_lseek e h off wh s = Inr (r, s') \<Longrightarrow> fh_step e (H, s) (H, s')"

text \<open>The descriptors of the Close hypercalls in a trace, in order.\<close>

definition close_fds :: "hcall list \<Rightarrow> i32 list" where
  "close_fds tr = map (\<lambda>c. close_fd (decode_SysClose (hc_frame c))) (filter (\<lambda>c. hc_port c = UHYVE_PORT_CLOSE) tr)"

definition fh_init :: "handle multiset \<times> 'a fstate_scheme \<Rightarrow> bool" where
  "fh_init = (\<lambda>(H, s). H = {#} \<and> arcs s = Map.empty \<and> next_arc s = 0 \<and> closed s = [] \<and> close_fds (trace s) = [])"

inductive fh_reach :: "env \<Rightarrow> handle multiset \<times> 'a fstate_scheme \<Rightarrow> bool" for e where
  fh_start: "fh_init \<sigma> \<Longrightarrow> fh_reach e \<sigma>"
| fh_next: "fh_reach e \<sigma> \<Longrightarrow> fh_step e \<sigma> \<sigma>' \<Longrightarrow> fh_reach e \<sigma>'"

text \<open>
  The invariant: the strong count of every live allocation is the number of handles
  held for it, and no handle is held for a freed one; live allocations are below
  \<open>next_arc\<close>; the closed allocations are exactly the freed ones, each once; and
  the Close hypercalls of the trace carry their descriptors in the same order.
\<close>

definition fh_inv :: "handle multiset \<times> 'a fstate_scheme \<Rightarrow> bool" where
  "fh_inv = (\<lambda>(H, s).
     (\<forall>h. count H h = (case arcs s h of None \<Rightarrow> 0 | Some c \<Rightarrow> strong c)) \<and>
     (\<forall>h c. arcs s h = Some c \<longrightarrow> 0 < strong c \<and> h < next_arc s) \<and>
     distinct (map fst (closed s)) \<and>
     set (map fst (closed s)) = {h. h < next_arc s \<and> arcs s h = None} \<and>
     close_fds (trace s) = map snd (closed s))"

definition fh_demo_state :: fstate where
  "fh_demo_state = \<lparr>mem = (\<lambda>_. 0), trace = [], arcs = Map.empty, next_arc = 0, closed = []\<rparr>"

section \<open>Lemmas\<close>

lemma Inner_read_shape:
  "Inner_read e fd buf len s = Inr (r, s') \<Longrightarrow>
   \<exists>m a. s' = s\<lparr>mem := m, trace := trace s @ [\<lparr>hc_port = UHYVE_PORT_READ, hc_addr = a,
            hc_frame = encode_SysRead (SysRead_new fd buf len)\<rparr>]\<rparr>"
  unfolding Inner_read_def
  by (auto simp: fbind_eq_Inr Let_def split: if_splits dest!: send_frame_shape)

lemma Inner_write_shape:
  "Inner_write e fd buf len s = Inr (r, s') \<Longrightarrow>
   \<exists>m a. s' = s\<lparr>mem := m, trace := trace s @ [\<lparr>hc_port = UHYVE_PORT_WRITE, hc_addr = a,
            hc_frame = encode_SysWrite (SysWrite_new fd buf len)\<rparr>]\<rparr>"
  unfolding Inner_write_def
  by (auto simp: fbind_eq_Inr dest!: send_frame_shape)

lemma Inner_lseek_shape:
  "Inner_lseek e fd off wh s = Inr (r, s') \<Longrightarrow>
   \<exists>m a req. s' = s\<lparr>mem := m, trace := trace s @ [\<lparr>hc_port = UHYVE_PORT_LSEEK, hc_addr = a,
            hc_frame = encode_SysLseek req\<rparr>]\<rparr>"
  unfolding Inner_lseek_def
  by (auto simp: fbind_eq_Inr Let_def split: if_splits dest!: send_frame_shape)

lemma Inner_drop_shape:
  "Inner_drop e fd s = Inr s' \<Longrightarrow>
   \<exists>m a. s' = s\<lparr>mem := m, trace := trace s @ [\<lparr>hc_port = UHYVE_PORT_CLOSE, hc_addr = a,
            hc_frame = encode_SysClose (SysClose_new fd)\<rparr>]\<rparr>"
  unfolding Inner_drop_def
  by (auto simp: fbind_eq_Inr dest!: send_frame_shape)

lemma Inner_read_typed: "Inner_read e fd buf len s = Inr (r, s') \<Longrightarrow> typed_access s s'"
  by (auto simp: typed_access_def dest!: Inner_read_shape)

lemma Inner_write_typed: "Inner_write e fd buf len s = Inr (r, s') \<Longrightarrow> typed_access s s'"
  by (auto simp: typed_access_def dest!: Inner_write_shape)

lemma Inner_lseek_typed: "Inner_lseek e fd off wh s = Inr (r, s') \<Longrightarrow> typed_access s s'"
  by (auto simp: typed_access_def dest!: Inner_lseek_shape)

lemma Inner_drop_typed: "Inner_drop e fd s = Inr s' \<Longrightarrow> typed_access s s'"
  by (auto simp: typed_access_def dest!: Inner_drop_shape)

lemma Inner_not_Dangling:
  "Inner_read e fd buf len s \<noteq> Inl Dangling" "Inner_write e fd buf len s \<noteq> Inl Dangling"
  "Inner_lseek e fd off wh s \<noteq> Inl Dangling" "Inner_drop e fd s \<noteq> Inl Dangling"
  by (auto simp: Inner_read_def Inner_write_def Inner_lseek_def Inner_drop_def fbind_eq_Inl Let_def
      send_frame_not_Dangling unwrap_not_Dangling SysLseek_new_def split: if_splits prod.splits)

lemma with_cell_Inr: "with_cell h s f = Inr x \<Longrightarrow> \<exists>c. arcs s h = Some c \<and> f c = Inr x"
  by (simp add: with_cell_def split: option.splits)

lemma UhyveFileHandle_drop_typed:
  "UhyveFileHandle_drop e h s = Inr s' \<Longrightarrow> trace s' = trace s \<or> typed_access s s'"
  unfolding UhyveFileHandle_drop_def
  by (auto simp: typed_access_def fbind_eq_Inr split: if_splits dest!: with_cell_Inr Inner_drop_shape)

lemma fh_step_typed:
  "fh_step e \<sigma> \<sigma>' \<Longrightarrow> trace (snd \<sigma>') = trace (snd \<sigma>) \<or> typed_access (snd \<sigma>) (snd \<sigma>')"
proof (induction rule: fh_step.induct)
  case (fh_new fd s h s' H)
  then show ?case by (auto simp: UhyveFileHandle_new_def)
next
  case (fh_clone h H s s')
  then show ?case by (auto simp: UhyveFileHandle_clone_def dest!: with_cell_Inr)
next
  case (fh_drop h H s s')
  then show ?case by (simp add: UhyveFileHandle_drop_typed)
next
  case (fh_read h H buf len s r s')
  then show ?case by (auto simp: UhyveFileHandle_read_def dest!: with_cell_Inr Inner_read_typed)
next
  case (fh_write h H buf len s r s')
  then show ?case by (auto simp: UhyveFileHandle_write_def dest!: with_cell_Inr Inner_write_typed)
next
  case (fh_lseek h H off wh s r s')
  then show ?case by (auto simp: UhyveFileHandle_lseek_def dest!: with_cell_Inr Inner_lseek_typed)
qed

lemma UhyveFileHandle_read_accesses:
  "UhyveFileHandle_read e h buf len s = Inr (r, s') \<Longrightarrow> accesses UHYVE_PORT_READ s s'"
  unfolding UhyveFileHandle_read_def with_cell_def accesses_def
  by (auto split: option.splits dest!: Inner_read_shape)

lemma UhyveFileHandle_write_accesses:
  "UhyveFileHandle_write e h buf len s = Inr (r, s') \<Longrightarrow> accesses UHYVE_PORT_WRITE s s'"
  unfolding UhyveFileHandle_write_def with_cell_def accesses_def
  by (auto split: option.splits dest!: Inner_write_shape)

lemma UhyveFileHandle_lseek_accesses:
  "UhyveFileHandle_lseek e h off wh s = Inr (r, s') \<Longrightarrow> accesses UHYVE_PORT_LSEEK s s'"
  unfolding UhyveFileHandle_lseek_def with_cell_def accesses_def
  by (auto split: option.splits dest!: Inner_lseek_shape)

lemma UhyveFileHandle_clone_Inr:
  "UhyveFileHandle_clone h s = Inr s' \<longleftrightarrow>
   (\<exists>c. arcs s h = Some c \<and> s' = s\<lparr>arcs := (arcs s)(h \<mapsto> c\<lparr>strong := Suc (strong c)\<rparr>)\<rparr>)"
  by (auto simp: UhyveFileHandle_clone_def with_cell_def split: option.splits)

lemma UhyveFileHandle_drop_Inr:
  assumes "UhyveFileHandle_drop e h s = Inr s'"
  obtains c where "arcs s h = Some c" "strong c \<noteq> 1"
      "s' = s\<lparr>arcs := (arcs s)(h \<mapsto> c\<lparr>strong := strong c - 1\<rparr>)\<rparr>"
  | c m a where "arcs s h = Some c" "strong c = 1"
      "s' = s\<lparr>mem := m, trace := trace s @ [\<lparr>hc_port = UHYVE_PORT_CLOSE, hc_addr = a,
                 hc_frame = encode_SysClose (SysClose_new (inner_fd c))\<rparr>],
              arcs := (arcs s)(h := None), closed := closed s @ [(h, inner_fd c)]\<rparr>"
  using assms unfolding UhyveFileHandle_drop_def with_cell_def
  by (auto simp: fbind_eq_Inr split: option.splits if_splits dest!: Inner_drop_shape)

lemma close_fds_append_other [simp]:
  "hc_port hc \<noteq> UHYVE_PORT_CLOSE \<Longrightarrow> close_fds (tr @ [hc]) = close_fds tr"
  by (simp add: close_fds_def)

lemma close_fds_append_close [simp]:
  "close_fds (tr @ [\<lparr>hc_port = UHYVE_PORT_CLOSE, hc_addr = a, hc_frame = encode_SysClose (SysClose_new fd)\<rparr>])
   = close_fds tr @ [fd]"
  by (simp add: close_fds_def SysClose_new_def)

lemma send_frame_accesses:
  "send_frame e port req s = Inr (bs, s') \<Longrightarrow> length req \<le> 2 ^ 64 \<Longrightarrow> accesses port s s'"
  by (auto simp: accesses_def dest!: send_frame_shape)

lemma fh_init_inv: "fh_init \<sigma> \<Longrightarrow> fh_inv \<sigma>"
  by (auto simp: fh_init_def fh_inv_def)

lemma fh_inv_accesses:
  "fh_inv (H, s) \<Longrightarrow> accesses port s s' \<Longrightarrow> port \<noteq> UHYVE_PORT_CLOSE \<Longrightarrow> fh_inv (H, s')"
  by (auto simp: fh_inv_def accesses_def)

lemma fh_inv_new:
  assumes "fh_inv (H, s)" and "UhyveFileHandle_new fd s = (h, s')"
  shows "fh_inv (add_mset h H, s')"
proof -
  from assms(2) have h: "h = next_arc s"
    and s': "s' = s\<lparr>arcs := (arcs s)(next_arc s \<mapsto> \<lparr>strong = 1, inner_fd = fd\<rparr>), next_arc := Suc (next_arc s)\<rparr>"
    by (auto simp: UhyveFileHandle_new_def)
  from assms(1) have fresh: "arcs s (next_arc s) = None"
    by (auto simp: fh_inv_def) (metis less_irrefl not_None_eq)
  with assms(1) have cnt: "count H (next_arc s) = 0"
    by (auto simp: fh_inv_def split: option.splits)
  show ?thesis
    using assms(1) fresh cnt unfolding h s' fh_inv_def
    by (auto split: option.splits simp: less_Suc_eq)
qed

lemma fh_inv_clone:
  assumes "fh_inv (H, s)" and "UhyveFileHandle_clone h s = Inr s'"
  shows "fh_inv (add_mset h H, s')"
proof -
  from assms(2) obtain c where c: "arcs s h = Some c"
    and s': "s' = s\<lparr>arcs := (arcs s)(h \<mapsto> c\<lparr>strong := Suc (strong c)\<rparr>)\<rparr>"
    by (auto simp: UhyveFileHandle_clone_Inr)
  from assms(1) c have "count H h = strong c" "h < next_arc s"
    by (auto simp: fh_inv_def split: option.splits)
  with assms(1) c show ?thesis
    unfolding s' fh_inv_def by (auto split: option.splits)
qed

lemma fh_invI:
  assumes "\<And>h. count H h = (case arcs s h of None \<Rightarrow> 0 | Some c \<Rightarrow> strong c)"
    and "\<And>h c. arcs s h = Some c \<Longrightarrow> 0 < strong c \<and> h < next_arc s"
    and "distinct (map fst (closed s))"
    and "set (map fst (closed s)) = {h. h < next_arc s \<and> arcs s h = None}"
    and "close_fds (trace s) = map snd (closed s)"
  shows "fh_inv (H, s)"
  using assms by (simp add: fh_inv_def)

lemma fh_invD:
  assumes "fh_inv (H, s)"
  shows "count H h = (case arcs s h of None \<Rightarrow> 0 | Some c \<Rightarrow> strong c)"
    and "arcs s h = Some c \<Longrightarrow> 0 < strong c \<and> h < next_arc s"
    and "distinct (map fst (closed s))"
    and "set (map fst (closed s)) = {h. h < next_arc s \<and> arcs s h = None}"
    and "close_fds (trace s) = map snd (closed s)"
  using assms by (simp_all add: fh_inv_def)

lemma fh_inv_held_live: "fh_inv (H, s) \<Longrightarrow> h \<in># H \<Longrightarrow> \<exists>c. arcs s h = Some c"
  using fh_invD(1) [of H s h] by (cases "arcs s h") (auto simp: count_eq_zero_iff)

lemma fh_inv_drop:
  assumes inv: "fh_inv (H, s)" and "h \<in># H" and "UhyveFileHandle_drop e h s = Inr s'"
  shows "fh_inv (H - {#h#}, s')"
  using assms(3)
proof (cases rule: UhyveFileHandle_drop_Inr)
  case (1 c)
  have cnt: "count H h = strong c" using fh_invD(1) [OF inv, of h] 1(1) by simp
  have gt: "1 < strong c" using fh_invD(2) [OF inv 1(1)] 1(2) by arith
  have lt: "h < next_arc s" using fh_invD(2) [OF inv 1(1)] by simp
  show ?thesis
  proof (rule fh_invI)
    fix x show "count (H - {#h#}) x = (case arcs s' x of None \<Rightarrow> 0 | Some c \<Rightarrow> strong c)"
      using fh_invD(1) [OF inv, of x] cnt 1(3) by (cases "x = h") simp_all
  next
    fix x c' assume "arcs s' x = Some c'"
    then show "0 < strong c' \<and> x < next_arc s'"
      using fh_invD(2) [OF inv, of x c'] gt lt 1(3) by (cases "x = h") auto
  next
    show "distinct (map fst (closed s'))" using fh_invD(3) [OF inv] 1(3) by simp
  next
    show "set (map fst (closed s')) = {h. h < next_arc s' \<and> arcs s' h = None}"
      using fh_invD(4) [OF inv] 1(1,3) by auto
  next
    show "close_fds (trace s') = map snd (closed s')" using fh_invD(5) [OF inv] 1(3) by simp
  qed
next
  case (2 c m a)
  have cnt: "count H h = 1" using fh_invD(1) [OF inv, of h] 2(1,2) by simp
  have lt: "h < next_arc s" using fh_invD(2) [OF inv 2(1)] by simp
  have notin: "h \<notin> set (map fst (closed s))" using fh_invD(4) [OF inv] 2(1) by auto
  show ?thesis
  proof (rule fh_invI)
    fix x show "count (H - {#h#}) x = (case arcs s' x of None \<Rightarrow> 0 | Some c \<Rightarrow> strong c)"
      using fh_invD(1) [OF inv, of x] cnt 2(3) by (cases "x = h") simp_all
  next
    fix x c' assume "arcs s' x = Some c'"
    then show "0 < strong c' \<and> x < next_arc s'"
      using fh_invD(2) [OF inv, of x c'] 2(3) by (cases "x = h") auto
  next
    show "distinct (map fst (closed s'))" using fh_invD(3) [OF inv] notin 2(3) by simp
  next
    show "set (map fst (closed s')) = {h. h < next_arc s' \<and> arcs s' h = None}"
      using fh_invD(4) [OF inv] lt 2(3) by auto
  next
    show "close_fds (trace s') = map snd (closed s')" using fh_invD(5) [OF inv] 2(3) by simp
  qed
qed

lemma fh_step_inv: "fh_step e \<sigma> \<sigma>' \<Longrightarrow> fh_inv \<sigma> \<Longrightarrow> fh_inv \<sigma>'"
proof (induction rule: fh_step.induct)
  case (fh_new fd s h s' H)
  from fh_new.prems fh_new.hyps show ?case by (rule fh_inv_new)
next
  case (fh_clone h H s s')
  from fh_clone.prems fh_clone.hyps(2) show ?case by (rule fh_inv_clone)
next
  case (fh_drop h H s s')
  from fh_drop.prems fh_drop.hyps show ?case by (rule fh_inv_drop)
next
  case (fh_read h H buf len s r s')
  from fh_read.prems UhyveFileHandle_read_accesses [OF fh_read.hyps(2)] show ?case
    by (rule fh_inv_accesses) simp
next
  case (fh_write h H buf len s r s')
  from fh_write.prems UhyveFileHandle_write_accesses [OF fh_write.hyps(2)] show ?case
    by (rule fh_inv_accesses) simp
next
  case (fh_lseek h H off wh s r s')
  from fh_lseek.prems UhyveFileHandle_lseek_accesses [OF fh_lseek.hyps(2)] show ?case
    by (rule fh_inv_accesses) simp
qed

lemma fh_reach_inv: "fh_reach e \<sigma> \<Longrightarrow> fh_inv \<sigma>"
proof (induction rule: fh_reach.induct)
  case (fh_start \<sigma>)
  then show ?case by (rule fh_init_inv)
next
  case (fh_next \<sigma> \<sigma>')
  from fh_next.hyps(2) fh_next.IH show ?case by (rule fh_step_inv)
qed

lemma fh_inv_close_count:
  assumes inv: "fh_inv (H, s)" and "h < next_arc s"
  shows "count (mset (map fst (closed s))) h = (if h \<in># H then 0 else 1)"
proof -
  have held: "h \<in># H \<longleftrightarrow> arcs s h \<noteq> None"
  proof (cases "arcs s h")
    case None
    then show ?thesis using fh_invD(1) [OF inv, of h] by (simp flip: count_greater_zero_iff)
  next
    case (Some c)
    then show ?thesis using fh_invD(1) [OF inv, of h] fh_invD(2) [OF inv Some]
      by (simp flip: count_greater_zero_iff)
  qed
  have "count (mset (map fst (closed s))) h = (if h \<in> set (map fst (closed s)) then 1 else 0)"
    using fh_invD(3) [OF inv] by (simp add: distinct_count_atmost_1)
  then show ?thesis
    using fh_invD(4) [OF inv] held assms(2) by simp
qed

text \<open>
  C1: in every reachable state of the handle system, an allocated handle has been
  closed exactly once if no reference to it is held any more, and not at all while
  one is held, and the Close hypercalls of the trace are exactly these closes, in
  order, each carrying the handle's descriptor: the Close hypercall of a descriptor is
  issued once, on the release of its last reference.
\<close>

theorem close_exactly_once:
  assumes "fh_reach e (H, s)" and "h < next_arc s"
  shows "count (mset (map fst (closed s))) h = (if h \<in># H then 0 else 1) \<and> close_fds (trace s) = map snd (closed s)"
proof -
  have inv: "fh_inv (H, s)" by (rule fh_reach_inv [OF assms(1)])
  show ?thesis using fh_inv_close_count [OF inv assms(2)] fh_invD(5) [OF inv] by simp
qed

lemma demo_drop: "\<exists>s2. UhyveFileHandle_drop (demo_env echo_host) 0 (snd (UhyveFileHandle_new 3 fh_demo_state)) = Inr s2"
  by (simp add: UhyveFileHandle_drop_def UhyveFileHandle_new_def with_cell_def Inner_drop_def
      demo_env_def fh_demo_state_def send_frame_mapped Let_def)

theorem close_exactly_once_witness:
  "fh_reach (demo_env echo_host) ({#}, projr (UhyveFileHandle_drop (demo_env echo_host) 0 (snd (UhyveFileHandle_new 3 fh_demo_state))))
   \<and> 0 < next_arc (projr (UhyveFileHandle_drop (demo_env echo_host) 0 (snd (UhyveFileHandle_new 3 fh_demo_state))))
   \<and> count (mset (map fst (closed (projr (UhyveFileHandle_drop (demo_env echo_host) 0 (snd (UhyveFileHandle_new 3 fh_demo_state))))))) 0 = 1"
proof -
  let ?s1 = "snd (UhyveFileHandle_new 3 fh_demo_state)"
  obtain s2 where d: "UhyveFileHandle_drop (demo_env echo_host) 0 ?s1 = Inr s2" using demo_drop by blast
  have new: "UhyveFileHandle_new 3 fh_demo_state = (0, ?s1)"
    by (simp add: UhyveFileHandle_new_def fh_demo_state_def)
  have r0: "fh_reach (demo_env echo_host) ({#}, fh_demo_state)"
    by (rule fh_start) (simp add: fh_init_def fh_demo_state_def close_fds_def)
  have r1: "fh_reach (demo_env echo_host) ({#0#}, ?s1)"
    using fh_next [OF r0 fh_new [OF new]] by simp
  have r2: "fh_reach (demo_env echo_host) ({#}, s2)"
    using fh_next [OF r1 fh_drop [OF _ d]] by simp
  have nx: "next_arc s2 = 1"
    using d by (auto simp: UhyveFileHandle_drop_def UhyveFileHandle_new_def with_cell_def fh_demo_state_def
        fbind_eq_Inr dest!: Inner_drop_shape)
  have "count (mset (map fst (closed s2))) 0 = (if 0 \<in># ({#} :: nat multiset) then 0 else 1)"
    using close_exactly_once [OF r2] nx by simp_all
  then show ?thesis using r2 nx d by simp
qed

text \<open>
  C4: \<open>read\<close> returns the host's result field when it is non-negative; for any
  negative result, the negated error code the host reports, it panics, because
  \<open>from_isize\<close> is applied to the negative value and no error kind has a negative
  discriminant.
\<close>

theorem read_result:
  assumes "exact_transport e pa" and "host e = typed_host hs"
    and "q = on_read hs (trace s) (SysRead_new fd buf len)"
  shows "result_of (Inner_read e fd buf len s) =
    (if 0 \<le> sint (read_ret q) then Inr (Ok (read_ret q)) else Inl (Unwrap_None ''from_isize''))"
proof -
  obtain s' where sf: "send_frame e UHYVE_PORT_READ (encode_SysRead (SysRead_new fd buf len)) s =
      Inr (encode_SysRead q, s')"
    using send_frame_typed_kinds(1) [OF assms(1,2)] assms(3) by blast
  show ?thesis
    by (simp add: Inner_read_def sf Let_def IoError_from_int_nonpos)
qed

text \<open>
  C5: \<open>write\<close> returns the length field of the request as it is after the
  hypercall (the requested length unless the host overwrote it), panicking only when
  that length does not fit an \<open>isize\<close>; the host confirms no byte count.
\<close>

theorem write_result:
  assumes "exact_transport e pa" and "host e = typed_host hs"
    and "q = on_write hs (trace s) (SysWrite_new fd buf len)"
  shows "result_of (Inner_write e fd buf len s) =
    (if unat (write_len q) < 2 ^ 63 then Inr (Ok (write_len q)) else Inl (Unwrap_None ''try_into''))"
proof -
  obtain s' where sf: "send_frame e UHYVE_PORT_WRITE (encode_SysWrite (SysWrite_new fd buf len)) s =
      Inr (encode_SysWrite q, s')"
    using send_frame_typed_kinds(2) [OF assms(1,2)] assms(3) by blast
  show ?thesis
    by (simp add: Inner_write_def sf isize_of_usize_def)
qed

text \<open>
  C6: \<open>lseek\<close> returns the offset field as the host left it when it is
  non-negative and \<open>EINVAL\<close> otherwise; it never panics.
\<close>

theorem lseek_result:
  assumes "exact_transport e pa" and "host e = typed_host hs"
    and "SeekWhence_to_i32 wh = Some w"
    and "q = on_lseek hs (trace s) \<lparr>lseek_fd = fd, lseek_offset = off, lseek_whence = w\<rparr>"
  shows "result_of (Inner_lseek e fd off wh s) =
    Inr (if 0 \<le> sint (lseek_offset q) then Ok (lseek_offset q) else Err EINVAL)"
proof -
  obtain s' where sf: "send_frame e UHYVE_PORT_LSEEK (encode_SysLseek \<lparr>lseek_fd = fd, lseek_offset = off, lseek_whence = w\<rparr>) s =
      Inr (encode_SysLseek q, s')"
    using send_frame_typed_kinds(3) [OF assms(1,2)] assms(4) by blast
  show ?thesis
    by (simp add: Inner_lseek_def SysLseek_new_def assms(3) sf Let_def)
qed

theorem read_result_witness:
  "result_of (Inner_read (demo_env (echo_host\<lparr>on_read := \<lambda>_ r. r\<lparr>read_ret := -2\<rparr>\<rparr>)) 3 0x5000 16 fh_demo_state)
     = Inl (Unwrap_None ''from_isize'')"
proof -
  let ?hs = "echo_host\<lparr>on_read := \<lambda>_ r. r\<lparr>read_ret := -2\<rparr>\<rparr>"
  let ?q = "on_read ?hs (trace fh_demo_state) (SysRead_new 3 0x5000 16)"
  have "result_of (Inner_read (demo_env ?hs) 3 0x5000 16 fh_demo_state) =
      (if 0 \<le> sint (read_ret ?q) then Inr (Ok (read_ret ?q)) else Inl (Unwrap_None ''from_isize''))"
    by (rule read_result [of "demo_env ?hs" "0x1000" ?hs ?q fh_demo_state 3 "0x5000" 16,
        OF conjunct1 [OF demo_env_exact] conjunct2 [OF demo_env_exact] refl])
  then show ?thesis by simp
qed

theorem write_result_witness:
  "result_of (Inner_write (demo_env echo_host) 3 0x5000 2 fh_demo_state) = Inr (Ok 2)"
proof -
  let ?q = "on_write echo_host (trace fh_demo_state) (SysWrite_new 3 0x5000 2)"
  have "result_of (Inner_write (demo_env echo_host) 3 0x5000 2 fh_demo_state) =
      (if unat (write_len ?q) < 2 ^ 63 then Inr (Ok (write_len ?q)) else Inl (Unwrap_None ''try_into''))"
    by (rule write_result [of "demo_env echo_host" "0x1000" echo_host ?q fh_demo_state 3 "0x5000" 2,
        OF conjunct1 [OF demo_env_exact] conjunct2 [OF demo_env_exact] refl])
  then show ?thesis by (simp add: echo_host_def SysWrite_new_def)
qed

theorem lseek_result_witness:
  "result_of (Inner_lseek (demo_env echo_host) 3 5 Set fh_demo_state) = Inr (Ok 5)"
proof -
  let ?q = "on_lseek echo_host (trace fh_demo_state) \<lparr>lseek_fd = 3, lseek_offset = 5, lseek_whence = 0\<rparr>"
  have "result_of (Inner_lseek (demo_env echo_host) 3 5 Set fh_demo_state) =
      Inr (if 0 \<le> sint (lseek_offset ?q) then Ok (lseek_offset ?q) else Err EINVAL)"
    by (rule lseek_result [of "demo_env echo_host" "0x1000" echo_host Set 0 ?q fh_demo_state 3 5,
        OF conjunct1 [OF demo_env_exact] conjunct2 [OF demo_env_exact] _ refl]) simp
  then show ?thesis by (simp add: echo_host_def)
qed

text \<open>
  C18.  The buffer pointer of a read or write request reaches the host as the
  caller's virtual address, \<open>buf.as_ptr()\<close>, untranslated, whereas the transport
  delivers the request itself at its physical address.
\<close>

theorem buffer_pointers_untranslated:
  "(Inner_read e fd buf len s = Inr (r, s') \<longrightarrow>
      read_buf (decode_SysRead (hc_frame (last (trace s')))) = buf) \<and>
   (Inner_write e fd buf len s = Inr (w, s'') \<longrightarrow>
      write_buf (decode_SysWrite (hc_frame (last (trace s'')))) = buf)"
  by (auto simp: SysRead_new_def SysWrite_new_def dest!: Inner_read_shape Inner_write_shape)

theorem buffer_pointers_untranslated_witness:
  "\<exists>r s' w s''. Inner_read (demo_env (demo_host\<lparr>on_read := \<lambda>_ q. q\<lparr>read_ret := 2\<rparr>\<rparr>)) 3 0x5000 2 fh_demo_state = Inr (r, s') \<and>
     Inner_write (demo_env (demo_host\<lparr>on_read := \<lambda>_ q. q\<lparr>read_ret := 2\<rparr>\<rparr>)) 3 0x5000 2 fh_demo_state = Inr (w, s'') \<and>
     read_buf (decode_SysRead (hc_frame (last (trace s')))) = 0x5000 \<and>
     write_buf (decode_SysWrite (hc_frame (last (trace s'')))) = 0x5000"
proof -
  obtain r s' where rd: "Inner_read (demo_env (demo_host\<lparr>on_read := \<lambda>_ q. q\<lparr>read_ret := 2\<rparr>\<rparr>)) 3 0x5000 2 fh_demo_state = Inr (r, s')"
    by (simp add: Inner_read_def send_frame_demo_kinds SysRead_new_def fh_demo_state_def Let_def)
  obtain w s'' where wr: "Inner_write (demo_env (demo_host\<lparr>on_read := \<lambda>_ q. q\<lparr>read_ret := 2\<rparr>\<rparr>)) 3 0x5000 2 fh_demo_state = Inr (w, s'')"
    by (simp add: Inner_write_def send_frame_demo_kinds SysWrite_new_def fh_demo_state_def isize_of_usize_def)
  show ?thesis using buffer_pointers_untranslated [of "demo_env (demo_host\<lparr>on_read := \<lambda>_ q. q\<lparr>read_ret := 2\<rparr>\<rparr>)" 3 "0x5000" 2 fh_demo_state r s' w s''] rd wr
    by blast
qed
end
