(* ===== verification/Directory.thy ===== *)
theory Directory
  imports FileHandle
begin

text \<open>
  The directory node of \<open>src/src/fs/uhyve.rs\<close> (lines 230--305): \<open>UhyveDirectory\<close>
  implements the VFS node contract.  \<open>traverse_open\<close> and \<open>traverse_unlink\<close>
  build an absolute path from the remaining path components, place it in a heap
  \<open>String\<close> (at the virtual address \<open>heap_va\<close> of the environment), build the
  request with the path's physical address, send it, and interpret the result field;
  a successful open wraps the returned descriptor in a new file handle.  The other
  operations fail with \<open>ENOSYS\<close> without a hypercall.  \<open>node_op\<close> is the node
  contract as a datatype of operations (\<open>vfs_op\<close>) with one dispatch function;
  \<open>op_port\<close> says which operations reach the host, and on which port.
\<close>

section \<open>Definitions\<close>

datatype NodeKind = File | Directory

text \<open>\<open>components.iter().map(|v| "/".to_owned() + v).collect()\<close>\<close>

definition join_components :: "string list \<Rightarrow> string" where
  "join_components cs = concat (map (\<lambda>v. ''/'' @ v) cs)"

text \<open>The path strings of \<open>traverse_open\<close> (root: \<open>"/\0"\<close>) and \<open>traverse_unlink\<close> (root: \<open>"/"\<close>).\<close>

definition open_path :: "string list \<Rightarrow> string" where
  "open_path cs = (if cs = [] then ''/'' @ [CHR 0x00] else join_components cs)"

definition unlink_path :: "string list \<Rightarrow> string" where
  "unlink_path cs = (if cs = [] then ''/'' else join_components cs)"

text \<open>The \<open>String\<close>'s bytes at the physical address of its buffer.\<close>

definition store_string :: "env \<Rightarrow> string \<Rightarrow> 'a tstate_scheme \<Rightarrow> 'a tstate_scheme" where
  "store_string e p s =
     (case v2p e (heap_va e) of None \<Rightarrow> s | Some pa \<Rightarrow> s\<lparr>mem := write_bytes (mem s) pa (str_bytes p)\<rparr>)"

definition get_kind :: NodeKind where
  "get_kind = Directory"

definition traverse_open ::
  "env \<Rightarrow> string list \<Rightarrow> i32 \<Rightarrow> 'a fstate_scheme \<Rightarrow> ((handle, IoError) result \<times> 'a fstate_scheme) fallible" where
  "traverse_open e cs opt s =
     (let s1 = store_string e (open_path cs) s in
      fbind (SysOpen_new (v2p e) (heap_va e) opt 0)
        (\<lambda>req. fbind (send_frame e UHYVE_PORT_OPEN (encode_SysOpen req) s1)
          (\<lambda>(bs, s2). let ret = open_ret (decode_SysOpen bs) in
             if 0 < sint ret then (case UhyveFileHandle_new ret s2 of (h, s3) \<Rightarrow> Inr (Ok h, s3))
             else fbind (unwrap ''from_i32'' (IoError_from_int (sint ret))) (\<lambda>err. Inr (Err err, s2)))))"

definition traverse_unlink ::
  "env \<Rightarrow> string list \<Rightarrow> 'a fstate_scheme \<Rightarrow> ((unit, IoError) result \<times> 'a fstate_scheme) fallible" where
  "traverse_unlink e cs s =
     (let s1 = store_string e (unlink_path cs) s in
      fbind (SysUnlink_new (v2p e) (heap_va e))
        (\<lambda>req. fbind (send_frame e UHYVE_PORT_UNLINK (encode_SysUnlink req) s1)
          (\<lambda>(bs, s2). let ret = unlink_ret (decode_SysUnlink bs) in
             if ret = 0 then Inr (Ok (), s2)
             else fbind (unwrap ''from_i32'' (IoError_from_int (sint ret))) (\<lambda>err. Inr (Err err, s2)))))"

definition traverse_opendir :: "string list \<Rightarrow> (handle, IoError) result" where
  "traverse_opendir cs = Err ENOSYS"

definition traverse_stat :: "string list \<Rightarrow> ('attr, IoError) result" where
  "traverse_stat cs = Err ENOSYS"

definition traverse_lstat :: "string list \<Rightarrow> ('attr, IoError) result" where
  "traverse_lstat cs = Err ENOSYS"

definition traverse_rmdir :: "string list \<Rightarrow> (unit, IoError) result" where
  "traverse_rmdir cs = Err ENOSYS"

definition traverse_mkdir :: "string list \<Rightarrow> u32 \<Rightarrow> (unit, IoError) result" where
  "traverse_mkdir cs mode = Err ENOSYS"

text \<open>The node contract: one constructor per \<open>VfsNode\<close> method the node implements.\<close>

datatype vfs_op =
    Op_opendir "string list"
  | Op_stat "string list"
  | Op_lstat "string list"
  | Op_open "string list" i32
  | Op_unlink "string list"
  | Op_rmdir "string list"
  | Op_mkdir "string list" u32

datatype node_ret = R_object handle | R_attr | R_unit

definition map_result :: "('a \<Rightarrow> 'b) \<Rightarrow> ('a, 'e) result \<Rightarrow> ('b, 'e) result" where
  "map_result f r = (case r of Ok x \<Rightarrow> Ok (f x) | Err err \<Rightarrow> Err err)"

fun node_op ::
  "env \<Rightarrow> vfs_op \<Rightarrow> 'a fstate_scheme \<Rightarrow> ((node_ret, IoError) result \<times> 'a fstate_scheme) fallible" where
  "node_op e (Op_opendir cs) s = Inr (map_result R_object (traverse_opendir cs), s)"
| "node_op e (Op_stat cs) s = Inr (map_result (\<lambda>_ :: unit. R_attr) (traverse_stat cs), s)"
| "node_op e (Op_lstat cs) s = Inr (map_result (\<lambda>_ :: unit. R_attr) (traverse_lstat cs), s)"
| "node_op e (Op_open cs opt) s =
     fbind (traverse_open e cs opt s) (\<lambda>(r, s'). Inr (map_result R_object r, s'))"
| "node_op e (Op_unlink cs) s =
     fbind (traverse_unlink e cs s) (\<lambda>(r, s'). Inr (map_result (\<lambda>_. R_unit) r, s'))"
| "node_op e (Op_rmdir cs) s = Inr (map_result (\<lambda>_. R_unit) (traverse_rmdir cs), s)"
| "node_op e (Op_mkdir cs mode) s = Inr (map_result (\<lambda>_. R_unit) (traverse_mkdir cs mode), s)"

text \<open>How the host reads the path: a C string, up to the first zero byte.\<close>

definition c_string :: "bytes \<Rightarrow> bytes" where
  "c_string bs = takeWhile (\<lambda>b. b \<noteq> 0) bs"

primrec op_port :: "vfs_op \<Rightarrow> u16 option" where
  "op_port (Op_opendir cs) = None"
| "op_port (Op_stat cs) = None"
| "op_port (Op_lstat cs) = None"
| "op_port (Op_open cs opt) = Some UHYVE_PORT_OPEN"
| "op_port (Op_unlink cs) = Some UHYVE_PORT_UNLINK"
| "op_port (Op_rmdir cs) = None"
| "op_port (Op_mkdir cs mode) = None"

text \<open>How the host splits a path into components, for the round trip.\<close>

fun split_on :: "char \<Rightarrow> string \<Rightarrow> string list" where
  "split_on d [] = [[]]"
| "split_on d (c # cs) = (if c = d then [] # split_on d cs
     else (case split_on d cs of w # ws \<Rightarrow> (c # w) # ws | [] \<Rightarrow> [[c]]))"

definition split_path :: "string \<Rightarrow> string list" where
  "split_path p = tl (split_on CHR ''/'' p)"

text \<open>The panic of \<open>uhyve_send\<close> when the transport cannot deliver: \<open>todo!()\<close> on RISC-V, otherwise the \<open>unwrap()\<close> of an untranslatable request address.\<close>

definition transport_panic :: "env \<Rightarrow> panic" where
  "transport_panic e = (if arch e = RiscV64 then Todo else Unwrap_None ''virtual_to_physical'')"

section \<open>Lemmas\<close>

lemma split_on_nonempty: "split_on d p \<noteq> []"
  by (induction p) (auto split: list.split)

lemma split_on_word_append:
  "d \<notin> set w \<Longrightarrow> split_on d (w @ r) = (case split_on d r of x # xs \<Rightarrow> (w @ x) # xs | [] \<Rightarrow> [w])"
  by (induction w) (auto split: list.split simp: split_on_nonempty)

lemma split_on_word: "d \<notin> set w \<Longrightarrow> split_on d w = [w]"
  using split_on_word_append [of d w "[]"] by simp

lemma split_on_sep_join:
  assumes "\<forall>v\<in>set cs. d \<notin> set v"
  shows "split_on d (concat (map (\<lambda>v. d # v) cs)) = (if cs = [] then [[]] else [] # cs)"
  using assms
proof (induction cs)
  case Nil
  then show ?case by simp
next
  case (Cons v vs)
  then have IH: "split_on d (concat (map (\<lambda>v. d # v) vs)) = (if vs = [] then [[]] else [] # vs)"
    and nv: "d \<notin> set v" by simp_all
  have "split_on d (v @ concat (map (\<lambda>v. d # v) vs)) = v # vs"
    using IH nv by (cases vs) (simp_all add: split_on_word_append split_on_word)
  then show ?case by simp
qed

lemma read_write_bytes_prefix:
  assumes "length bs + n \<le> 2 ^ 64"
  shows "read_bytes (write_bytes m a bs) a (length bs + n) = bs @ read_bytes m (a + word_of_nat (length bs)) n"
proof (rule nth_equalityI)
  show "length (read_bytes (write_bytes m a bs) a (length bs + n)) = length (bs @ read_bytes m (a + word_of_nat (length bs)) n)"
    by simp
next
  fix i assume "i < length (read_bytes (write_bytes m a bs) a (length bs + n))"
  then have i: "i < length bs + n" by simp
  with assms have small: "i < 2 ^ 64" by simp
  then have u: "unat (word_of_nat i :: u64) = i"
    by (simp add: unat_of_nat take_bit_nat_eq_self)
  show "read_bytes (write_bytes m a bs) a (length bs + n) ! i = (bs @ read_bytes m (a + word_of_nat (length bs)) n) ! i"
  proof (cases "i < length bs")
    case True
    then show ?thesis using i u by (simp add: read_bytes_def write_bytes_def nth_append)
  next
    case False
    then have "a + word_of_nat i = a + word_of_nat (length bs) + word_of_nat (i - length bs)"
      by (simp add: of_nat_diff)
    then show ?thesis using False i u by (simp add: read_bytes_def write_bytes_def nth_append)
  qed
qed

lemma store_string_read:
  "v2p e (heap_va e) = Some pn \<Longrightarrow> length p + n \<le> 2 ^ 64 \<Longrightarrow>
   read_bytes (mem (store_string e p s)) pn (length p + n) = str_bytes p @ read_bytes (mem s) (pn + word_of_nat (length p)) n"
  using read_write_bytes_prefix [of "str_bytes p" n "mem s" pn] by (simp add: store_string_def)

lemma send_frame_fails:
  "arch e = RiscV64 \<or> v2p e (stack_va e) = None \<Longrightarrow> send_frame e port req s = Inl (transport_panic e)"
  by (auto simp: transport_panic_def send_frame_RiscV64 send_frame_unmapped)

lemma c_string_append_no_zero: "0 \<notin> set xs \<Longrightarrow> c_string (xs @ ys) = xs @ c_string ys"
  by (induction xs) (auto simp: c_string_def)

lemma join_components_no_zero:
  "\<forall>v\<in>set cs. 0 \<notin> set (str_bytes v) \<Longrightarrow> 0 \<notin> set (str_bytes (join_components cs))"
proof (induction cs)
  case Nil
  then show ?case by (simp add: join_components_def)
next
  case (Cons v vs)
  have "(0 :: u8) \<noteq> word_of_nat (of_char (CHR ''/''))" by simp
  with Cons show ?case by (auto simp: join_components_def)
qed

lemma store_string_trace [simp]: "trace (store_string e p s) = trace s"
  by (simp add: store_string_def split: option.split)

lemma store_string_arcs [simp]:
  "arcs (store_string e p s) = arcs s" "next_arc (store_string e p s) = next_arc s"
  "closed (store_string e p s) = closed s"
  by (simp_all add: store_string_def split: option.split)

lemma UhyveFileHandle_new_trace [simp]: "trace (snd (UhyveFileHandle_new fd s)) = trace s"
  by (simp add: UhyveFileHandle_new_def)

lemma traverse_open_trace:
  "traverse_open e cs opt s = Inr (r, s') \<Longrightarrow> \<exists>hc. trace s' = trace s @ [hc] \<and> hc_port hc = UHYVE_PORT_OPEN"
  unfolding traverse_open_def Let_def
  by (fastforce simp: fbind_eq_Inr UhyveFileHandle_new_def split: if_splits prod.splits
      dest!: send_frame_shape)

lemma traverse_unlink_trace:
  "traverse_unlink e cs s = Inr (r, s') \<Longrightarrow> \<exists>hc. trace s' = trace s @ [hc] \<and> hc_port hc = UHYVE_PORT_UNLINK"
  unfolding traverse_unlink_def Let_def
  by (fastforce simp: fbind_eq_Inr split: if_splits prod.splits dest!: send_frame_shape)

lemma traverse_open_typed: "traverse_open e cs opt s = Inr (r, s') \<Longrightarrow> typed_access s s'"
  unfolding traverse_open_def Let_def
  by (fastforce simp: typed_access_def fbind_eq_Inr UhyveFileHandle_new_def split: if_splits prod.splits
      dest!: send_frame_shape)

lemma traverse_unlink_typed: "traverse_unlink e cs s = Inr (r, s') \<Longrightarrow> typed_access s s'"
  unfolding traverse_unlink_def Let_def
  by (fastforce simp: typed_access_def fbind_eq_Inr split: if_splits prod.splits dest!: send_frame_shape)

lemma node_op_typed:
  "node_op e op s = Inr (r, s') \<Longrightarrow> trace s' = trace s \<or> typed_access s s'"
  by (cases op) (auto simp: fbind_eq_Inr traverse_opendir_def traverse_stat_def traverse_lstat_def
      traverse_rmdir_def traverse_mkdir_def dest: traverse_open_typed traverse_unlink_typed)


lemma traverse_open_effect:
  assumes "traverse_open e cs opt s = Inr (r, s')"
  shows "\<exists>s2. accesses UHYVE_PORT_OPEN s s2 \<and>
    (case r of Ok h \<Rightarrow> \<exists>fd. UhyveFileHandle_new fd s2 = (h, s') | Err err \<Rightarrow> s' = s2)"
proof -
  from assms obtain req bs s2
    where sf: "send_frame e UHYVE_PORT_OPEN (encode_SysOpen req) (store_string e (open_path cs) s) = Inr (bs, s2)"
      and rest: "(let ret = open_ret (decode_SysOpen bs) in
          if 0 < sint ret then (case UhyveFileHandle_new ret s2 of (h, s3) \<Rightarrow> Inr (Ok h, s3))
          else fbind (unwrap ''from_i32'' (IoError_from_int (sint ret))) (\<lambda>err. Inr (Err err, s2))) = Inr (r, s')"
    by (auto simp: traverse_open_def fbind_eq_Inr)
  have acc: "accesses UHYVE_PORT_OPEN s s2"
    using send_frame_accesses [OF sf] by (simp add: accesses_def)
  have "case r of Ok h \<Rightarrow> \<exists>fd. UhyveFileHandle_new fd s2 = (h, s') | Err err \<Rightarrow> s' = s2"
    using rest by (auto simp: Let_def fbind_eq_Inr split: if_splits prod.splits)
  with acc show ?thesis by blast
qed

lemma traverse_unlink_effect:
  "traverse_unlink e cs s = Inr (r, s') \<Longrightarrow> accesses UHYVE_PORT_UNLINK s s'"
  unfolding traverse_unlink_def Let_def
  by (fastforce simp: fbind_eq_Inr accesses_def split: if_splits prod.splits dest!: send_frame_shape)


text \<open>
  C7: an operation of the node contract that returns does one of two things: the
  operations with no port (opendir, stat, lstat, rmdir, mkdir) return \<open>ENOSYS\<close> and
  change nothing, so they never reach the host; open and unlink add exactly one
  hypercall, on their own port.
\<close>

theorem node_op_effects:
  assumes "node_op e op s = Inr (r, s')"
  shows "case op_port op of
           None \<Rightarrow> r = Err ENOSYS \<and> s' = s
         | Some p \<Rightarrow> \<exists>hc. trace s' = trace s @ [hc] \<and> hc_port hc = p"
  using assms
proof (cases op)
  case (Op_open cs opt)
  with assms show ?thesis
    by (auto simp: fbind_eq_Inr dest!: traverse_open_trace)
next
  case (Op_unlink cs)
  with assms show ?thesis
    by (auto simp: fbind_eq_Inr dest!: traverse_unlink_trace)
qed (auto simp: map_result_def traverse_opendir_def traverse_stat_def traverse_lstat_def
      traverse_rmdir_def traverse_mkdir_def)

text \<open>
  C8: for a non-empty list of components none of which contains \<open>/\<close>, the path
  string built by open and by unlink is \<open>/c1/c2/...\<close>: splitting it at \<open>/\<close>
  gives back the components.
\<close>

theorem path_roundtrip:
  assumes "cs \<noteq> []" and "\<forall>v\<in>set cs. CHR ''/'' \<notin> set v"
  shows "split_path (open_path cs) = cs \<and> split_path (unlink_path cs) = cs"
proof -
  have "join_components cs = concat (map (\<lambda>v. CHR ''/'' # v) cs)"
    by (simp add: join_components_def)
  then have "split_path (join_components cs) = cs"
    using split_on_sep_join [OF assms(2)] assms(1) by (simp add: split_path_def)
  then show ?thesis
    using assms(1) by (simp add: open_path_def unlink_path_def)
qed

text \<open>
  C9: the path of a non-root open is not NUL-terminated: when the host reads the
  name as a C string from the path's physical address, it reads the path and then
  continues into whatever bytes follow the string's buffer, up to the next zero.
\<close>

theorem host_reads_past_path:
  assumes "v2p e (heap_va e) = Some pn" and "cs \<noteq> []"
    and "\<forall>v\<in>set cs. 0 \<notin> set (str_bytes v)"
    and "length (open_path cs) + n \<le> 2 ^ 64"
  shows "c_string (read_bytes (mem (store_string e (open_path cs) s)) pn (length (open_path cs) + n)) =
    str_bytes (open_path cs) @ c_string (read_bytes (mem s) (pn + word_of_nat (length (open_path cs))) n)"
proof -
  have nz: "0 \<notin> set (str_bytes (open_path cs))"
    using join_components_no_zero [OF assms(3)] assms(2) by (simp add: open_path_def)
  have "read_bytes (mem (store_string e (open_path cs) s)) pn (length (open_path cs) + n) =
      str_bytes (open_path cs) @ read_bytes (mem s) (pn + word_of_nat (length (open_path cs))) n"
    by (rule store_string_read [OF assms(1,4)])
  then show ?thesis
    using nz by (simp add: c_string_append_no_zero)
qed

text \<open>
  C10: an open whose host result is positive returns a new handle, the next free
  allocation, whose cell holds that descriptor with one reference; no other
  allocation changes.
\<close>

theorem open_success:
  assumes "exact_transport e pa" and "host e = typed_host hs" and "v2p e (heap_va e) = Some pn"
    and "q = on_open hs (trace s) \<lparr>open_name = pn, open_flags = opt, open_mode = 0, open_ret = -1\<rparr>"
    and "0 < sint (open_ret q)"
  shows "\<exists>s'. traverse_open e cs opt s = Inr (Ok (next_arc s), s') \<and>
    arcs s' (next_arc s) = Some \<lparr>strong = 1, inner_fd = open_ret q\<rparr> \<and> next_arc s' = Suc (next_arc s) \<and>
    (\<forall>h. h \<noteq> next_arc s \<longrightarrow> arcs s' h = arcs s h)"
proof -
  let ?s1 = "store_string e (open_path cs) s"
  let ?req = "\<lparr>open_name = pn, open_flags = opt, open_mode = 0, open_ret = -1\<rparr>"
  obtain s2 where sf: "send_frame e UHYVE_PORT_OPEN (encode_SysOpen ?req) ?s1 = Inr (encode_SysOpen q, s2)"
    using send_frame_typed_kinds(5) [OF assms(1,2), of ?req ?s1] assms(4) by auto
  from sf have fr: "arcs s2 = arcs s \<and> next_arc s2 = next_arc s"
    by (auto dest!: send_frame_shape)
  show ?thesis
    using assms(3,5) fr
    by (simp add: traverse_open_def SysOpen_new_def sf UhyveFileHandle_new_def Let_def)
qed

text \<open>
  C11: an open whose host result is zero or negative panics in \<open>from_i32(..).unwrap()\<close>
  instead of returning the error the negated code stands for, and creates no handle.
\<close>

theorem open_error_panics:
  assumes "exact_transport e pa" and "host e = typed_host hs" and "v2p e (heap_va e) = Some pn"
    and "q = on_open hs (trace s) \<lparr>open_name = pn, open_flags = opt, open_mode = 0, open_ret = -1\<rparr>"
    and "sint (open_ret q) \<le> 0"
  shows "traverse_open e cs opt s = Inl (Unwrap_None ''from_i32'')"
proof -
  let ?s1 = "store_string e (open_path cs) s"
  let ?req = "\<lparr>open_name = pn, open_flags = opt, open_mode = 0, open_ret = -1\<rparr>"
  obtain s2 where sf: "send_frame e UHYVE_PORT_OPEN (encode_SysOpen ?req) ?s1 = Inr (encode_SysOpen q, s2)"
    using send_frame_typed_kinds(5) [OF assms(1,2), of ?req ?s1] assms(4) by auto
  show ?thesis
    using assms(3,5)
    by (simp add: traverse_open_def SysOpen_new_def sf Let_def IoError_from_int_nonpos)
qed

text \<open>
  C12: unlink succeeds when the host result is 0; a negative result (a negated error
  code) panics; only a positive value equal to an error discriminant would become an
  error.
\<close>

theorem unlink_result:
  assumes "exact_transport e pa" and "host e = typed_host hs" and "v2p e (heap_va e) = Some pn"
    and "q = on_unlink hs (trace s) \<lparr>unlink_name = pn, unlink_ret = -1\<rparr>"
  shows "result_of (traverse_unlink e cs s) =
    (if unlink_ret q = 0 then Inr (Ok ())
     else if sint (unlink_ret q) < 0 then Inl (Unwrap_None ''from_i32'')
     else case IoError_from_int (sint (unlink_ret q)) of
            None \<Rightarrow> Inl (Unwrap_None ''from_i32'') | Some err \<Rightarrow> Inr (Err err))"
proof -
  let ?s1 = "store_string e (unlink_path cs) s"
  let ?req = "\<lparr>unlink_name = pn, unlink_ret = -1\<rparr>"
  obtain s2 where sf: "send_frame e UHYVE_PORT_UNLINK (encode_SysUnlink ?req) ?s1 = Inr (encode_SysUnlink q, s2)"
    using send_frame_typed_kinds(6) [OF assms(1,2), of ?req ?s1] assms(4) by auto
  show ?thesis
    using assms(3)
    by (auto simp: traverse_unlink_def SysUnlink_new_def sf Let_def IoError_from_int_nonpos
        split: option.split)
qed


theorem node_op_effects_witness:
  "node_op (demo_env demo_host) (Op_rmdir [''d'']) fh_demo_state = Inr (Err ENOSYS, fh_demo_state)
   \<and> Err ENOSYS = (Err ENOSYS :: (node_ret, IoError) result)"
proof -
  have run: "node_op (demo_env demo_host) (Op_rmdir [''d'']) fh_demo_state = Inr (Err ENOSYS, fh_demo_state)"
    by (simp add: map_result_def traverse_rmdir_def)
  have "Err ENOSYS = (Err ENOSYS :: (node_ret, IoError) result) \<and> fh_demo_state = fh_demo_state"
    using node_op_effects [OF run] by simp
  with run show ?thesis by simp
qed

theorem path_roundtrip_witness:
  "split_path (open_path [''tmp'', ''x'']) = [''tmp'', ''x''] \<and> open_path [''tmp'', ''x''] = ''/tmp/x''"
  using path_roundtrip [of "[''tmp'', ''x'']"]
  by (simp add: open_path_def join_components_def)

theorem host_reads_past_path_witness:
  "c_string (read_bytes (mem (store_string (demo_env demo_host) (open_path [''a'']) (fh_demo_state\<lparr>mem := \<lambda>_. 65\<rparr>)))
      0x2000 (length (open_path [''a'']) + 2))
   = str_bytes ''/a'' @ [65, 65]"
proof -
  have "c_string (read_bytes (mem (store_string (demo_env demo_host) (open_path [''a'']) (fh_demo_state\<lparr>mem := \<lambda>_. 65\<rparr>)))
      0x2000 (length (open_path [''a'']) + 2))
    = str_bytes (open_path [''a'']) @ c_string (read_bytes (\<lambda>_. 65) (0x2000 + word_of_nat (length (open_path [''a'']))) 2)"
    using host_reads_past_path [of "demo_env demo_host" "0x2000" "[''a'']" 2 "fh_demo_state\<lparr>mem := \<lambda>_. 65\<rparr>"]
    by (simp add: demo_env_def open_path_def join_components_def)
  also have "\<dots> = str_bytes ''/a'' @ [65, 65]"
    by (simp add: open_path_def join_components_def read_bytes_def c_string_def upt_rec)
  finally show ?thesis .
qed

theorem open_success_witness:
  "\<exists>s'. traverse_open (demo_env demo_host) [''tmp'', ''x''] 0x241 fh_demo_state = Inr (Ok 0, s') \<and>
     arcs s' 0 = Some \<lparr>strong = 1, inner_fd = 3\<rparr>"
proof -
  have "\<exists>s'. traverse_open (demo_env demo_host) [''tmp'', ''x''] 0x241 fh_demo_state = Inr (Ok (next_arc fh_demo_state), s') \<and>
    arcs s' (next_arc fh_demo_state) = Some \<lparr>strong = 1, inner_fd = open_ret (on_open demo_host (trace fh_demo_state)
        \<lparr>open_name = 0x2000, open_flags = 0x241, open_mode = 0, open_ret = -1\<rparr>)\<rparr> \<and>
    next_arc s' = Suc (next_arc fh_demo_state) \<and> (\<forall>h. h \<noteq> next_arc fh_demo_state \<longrightarrow> arcs s' h = arcs fh_demo_state h)"
    by (rule open_success [OF conjunct1 [OF demo_env_exact] conjunct2 [OF demo_env_exact] _ refl])
       (simp_all add: demo_env_def demo_host_def)
  then show ?thesis by (simp add: fh_demo_state_def demo_host_def) blast
qed

theorem open_error_panics_witness:
  "traverse_open (demo_env (demo_host\<lparr>on_open := \<lambda>_ r. r\<lparr>open_ret := -2\<rparr>\<rparr>)) [''missing''] 0 fh_demo_state
     = Inl (Unwrap_None ''from_i32'')"
  by (rule open_error_panics [OF conjunct1 [OF demo_env_exact] conjunct2 [OF demo_env_exact] _ refl])
     (simp_all add: demo_env_def)

theorem unlink_result_witness:
  "result_of (traverse_unlink (demo_env demo_host) [''a''] fh_demo_state) = Inr (Ok ())
   \<and> result_of (traverse_unlink (demo_env (demo_host\<lparr>on_unlink := \<lambda>_ r. r\<lparr>unlink_ret := -13\<rparr>\<rparr>)) [''a''] fh_demo_state)
     = Inl (Unwrap_None ''from_i32'')"
proof -
  have v: "v2p (demo_env hs) (heap_va (demo_env hs)) = Some 0x2000" for hs
    by (simp add: demo_env_def)
  have a: "result_of (traverse_unlink (demo_env demo_host) [''a''] fh_demo_state) = Inr (Ok ())"
    using unlink_result [OF conjunct1 [OF demo_env_exact] conjunct2 [OF demo_env_exact] v refl,
        of demo_host "[''a'']" fh_demo_state]
    by (simp add: demo_host_def)
  have b: "result_of (traverse_unlink (demo_env (demo_host\<lparr>on_unlink := \<lambda>_ r. r\<lparr>unlink_ret := -13\<rparr>\<rparr>)) [''a''] fh_demo_state)
     = Inl (Unwrap_None ''from_i32'')"
    using unlink_result [OF conjunct1 [OF demo_env_exact] conjunct2 [OF demo_env_exact] v refl,
        of "demo_host\<lparr>on_unlink := \<lambda>_ r. r\<lparr>unlink_ret := -13\<rparr>\<rparr>" "[''a'']" fh_demo_state]
    by simp
  from a b show ?thesis ..
qed

text \<open>
  C25.  When the transport cannot deliver, because the target is RISC-V or the
  request's stack slot has no physical address, every operation that makes a
  hypercall (open, unlink, read, write, lseek, close) panics with the transport's
  panic, provided the path buffer translates: \<open>todo!()\<close> on RISC-V, the
  \<open>unwrap()\<close> of \<open>virtual_to_physical\<close> otherwise.
\<close>

theorem transport_failure_panics:
  assumes "arch e = RiscV64 \<or> v2p e (stack_va e) = None" and "v2p e (heap_va e) \<noteq> None"
  shows "traverse_open e cs opt s = Inl (transport_panic e) \<and> traverse_unlink e cs s = Inl (transport_panic e) \<and>
    Inner_read e fd buf len s = Inl (transport_panic e) \<and> Inner_write e fd buf len s = Inl (transport_panic e) \<and>
    Inner_lseek e fd off wh s = Inl (transport_panic e) \<and> Inner_drop e fd s = Inl (transport_panic e)"
  using assms(2)
  by (cases wh) (auto simp: send_frame_fails [OF assms(1)] traverse_open_def traverse_unlink_def SysOpen_new_def SysUnlink_new_def Inner_read_def
      Inner_write_def Inner_lseek_def Inner_drop_def SysLseek_new_def Let_def)

theorem transport_failure_panics_witness:
  "traverse_open ((demo_env demo_host)\<lparr>arch := RiscV64\<rparr>) [''x''] 0 fh_demo_state = Inl Todo \<and>
   Inner_read ((demo_env demo_host)\<lparr>v2p := (Some)(0x1000 := None)\<rparr>) 3 0x5000 2 fh_demo_state =
     Inl (Unwrap_None ''virtual_to_physical'')"
proof -
  let ?e1 = "(demo_env demo_host)\<lparr>arch := RiscV64\<rparr>"
  let ?e2 = "(demo_env demo_host)\<lparr>v2p := (Some)(0x1000 := None)\<rparr>"
  have h1: "arch ?e1 = RiscV64 \<or> v2p ?e1 (stack_va ?e1) = None" "v2p ?e1 (heap_va ?e1) \<noteq> None"
    by (simp_all add: demo_env_def)
  have h2: "arch ?e2 = RiscV64 \<or> v2p ?e2 (stack_va ?e2) = None" "v2p ?e2 (heap_va ?e2) \<noteq> None"
    by (simp_all add: demo_env_def)
  have a: "traverse_open ?e1 [''x''] 0 fh_demo_state = Inl (transport_panic ?e1)"
    using transport_failure_panics [OF h1, where cs = "[''x'']" and opt = 0 and s = fh_demo_state] by blast
  have b: "Inner_read ?e2 3 0x5000 2 fh_demo_state = Inl (transport_panic ?e2)"
    using transport_failure_panics [OF h2, where fd = 3 and buf = "0x5000" and len = 2 and s = fh_demo_state] by blast
  show ?thesis using a b by (simp add: transport_panic_def demo_env_def)
qed

text \<open>
  C26.  The path is translated before any hypercall: when the path buffer has no
  physical address, open and unlink panic in \<open>SysOpen::new\<close>/\<open>SysUnlink::new\<close>
  with the \<open>unwrap()\<close> of \<open>virtual_to_physical\<close>, on every target, RISC-V
  included.
\<close>

theorem path_translation_first:
  "v2p e (heap_va e) = None \<Longrightarrow>
   traverse_open e cs opt s = Inl (Unwrap_None ''virtual_to_physical'') \<and>
   traverse_unlink e cs s = Inl (Unwrap_None ''virtual_to_physical'')"
  by (simp add: traverse_open_def traverse_unlink_def SysOpen_new_def SysUnlink_new_def Let_def)

theorem path_translation_first_witness:
  "traverse_open ((demo_env demo_host)\<lparr>arch := RiscV64, v2p := (Some)(0x2000 := None)\<rparr>) [''x''] 0 fh_demo_state =
     Inl (Unwrap_None ''virtual_to_physical'')"
proof -
  let ?e = "(demo_env demo_host)\<lparr>arch := RiscV64, v2p := (Some)(0x2000 := None)\<rparr>"
  have h: "v2p ?e (heap_va ?e) = None" by (simp add: demo_env_def)
  show ?thesis using path_translation_first [OF h, where cs = "[''x'']" and opt = 0 and s = fh_demo_state] by blast
qed

text \<open>
  C27.  The root paths, the empty component list: open stores \<open>"/\0"\<close>, so the host
  reads exactly \<open>/\<close>; unlink stores \<open>"/"\<close> without a terminator, so the host reads
  \<open>/\<close> followed by whatever bytes follow the buffer, up to the next zero.
\<close>

theorem root_paths:
  assumes "v2p e (heap_va e) = Some pn" and "n + 2 \<le> 2 ^ 64"
  shows "c_string (read_bytes (mem (store_string e (open_path []) s)) pn (2 + n)) = str_bytes ''/'' \<and>
    c_string (read_bytes (mem (store_string e (unlink_path []) s)) pn (1 + n)) =
      str_bytes ''/'' @ c_string (read_bytes (mem s) (pn + 1) n)"
proof -
  have o: "read_bytes (mem (store_string e (open_path []) s)) pn (2 + n) =
      str_bytes (''/'' @ [CHR 0x00]) @ read_bytes (mem s) (pn + 2) n"
    using store_string_read [OF assms(1), of "open_path []" n s] assms(2) by (simp add: open_path_def add.commute)
  have u: "read_bytes (mem (store_string e (unlink_path []) s)) pn (1 + n) =
      str_bytes ''/'' @ read_bytes (mem s) (pn + 1) n"
    using store_string_read [OF assms(1), of "unlink_path []" n s] assms(2) by (simp add: unlink_path_def add.commute)
  show ?thesis unfolding o u by (simp add: c_string_def)
qed

theorem root_paths_witness:
  "c_string (read_bytes (mem (store_string (demo_env demo_host) (open_path []) (fh_demo_state\<lparr>mem := \<lambda>_. 65\<rparr>))) 0x2000 (2 + 1))
     = str_bytes ''/'' \<and>
   c_string (read_bytes (mem (store_string (demo_env demo_host) (unlink_path []) (fh_demo_state\<lparr>mem := \<lambda>_. 65\<rparr>))) 0x2000 (1 + 1))
     = str_bytes ''/'' @ c_string (read_bytes (\<lambda>_. 65) (0x2000 + 1) 1)"
proof -
  have h: "v2p (demo_env demo_host) (heap_va (demo_env demo_host)) = Some 0x2000" by (simp add: demo_env_def)
  show ?thesis using root_paths [OF h, of 1 "fh_demo_state\<lparr>mem := \<lambda>_. 65\<rparr>"] by simp
qed

end
