(* ===== verification/Mount.thy ===== *)
theory Mount
  imports Directory
begin

text \<open>
  The mount initializer, \<open>init\<close> of \<open>src/src/fs/uhyve.rs\<close> (lines 307--317).  The
  global \<open>FILESYSTEM\<close> is a once-initialised cell holding the mount table; it is
  \<open>None\<close> before the filesystem layer has been set up.  The mount operation of that
  layer is outside this file; it is modelled from the specification: a path that is
  already a mount point is rejected.  \<open>is_uhyve\<close> is the hypervisor-detection
  oracle.  The log messages of \<open>init\<close> are not modelled.
\<close>

section \<open>Definitions\<close>

text \<open>A boxed VFS node: this file's directory, or a node of another filesystem.\<close>

datatype vfs_node = UhyveDirectory | Foreign_node string

type_synonym mount_table = "string \<rightharpoonup> vfs_node"

definition fs_mount :: "string \<Rightarrow> vfs_node \<Rightarrow> mount_table \<Rightarrow> (mount_table, IoError) result" where
  "fs_mount p n t = (if p \<in> dom t then Err EEXIST else Ok (t(p \<mapsto> n)))"

definition uhyve_mount_point :: string where
  "uhyve_mount_point = ''/host''"

definition init :: "bool \<Rightarrow> mount_table option \<Rightarrow> mount_table option fallible" where
  "init is_uhyve FILESYSTEM =
     (if is_uhyve then
        fbind (unwrap ''FILESYSTEM.get()'' FILESYSTEM)
          (\<lambda>t. case fs_mount uhyve_mount_point UhyveDirectory t of
                 Ok t' \<Rightarrow> Inr (Some t')
               | Err err \<Rightarrow> Inl (Expect ''Mount failed. Duplicate mount_point?''))
      else Inr FILESYSTEM)"

section \<open>Lemmas\<close>

text \<open>
  C13: under uhyve, initialising a filesystem layer whose table has no \<open>/host\<close>
  entry mounts the directory node at \<open>/host\<close> and changes no other entry; a second
  initialisation is a fatal error (the \<open>expect\<close> panics), and so is initialisation
  before the filesystem layer exists.  Without uhyve nothing changes.
\<close>

theorem init_mounts_once:
  assumes "uhyve_mount_point \<notin> dom t"
  shows "init True (Some t) = Inr (Some (t(uhyve_mount_point \<mapsto> UhyveDirectory)))
    \<and> init True (Some (t(uhyve_mount_point \<mapsto> UhyveDirectory))) = Inl (Expect ''Mount failed. Duplicate mount_point?'')
    \<and> init True None = Inl (Unwrap_None ''FILESYSTEM.get()'')
    \<and> init False (Some t) = Inr (Some t)"
  using assms by (simp add: init_def fs_mount_def)

theorem init_mounts_once_witness:
  "init True (Some Map.empty) = Inr (Some [''/host'' \<mapsto> UhyveDirectory])
   \<and> init True (Some [''/host'' \<mapsto> UhyveDirectory]) = Inl (Expect ''Mount failed. Duplicate mount_point?'')"
  using init_mounts_once [of Map.empty] by (simp add: uhyve_mount_point_def)

end
