(* ===== verification/HandleLock.thy ===== *)
theory HandleLock
  imports FileHandle
begin

text \<open>
  The spin lock of \<open>UhyveFileHandle\<close> (\<open>src/src/fs/uhyve.rs\<close>, lines 210--222):
  \<open>self.0.lock().read(buf)\<close> and its two siblings take the handle's
  \<open>SpinMutex\<close>, run the inner operation (one hypercall) and release the guard when
  it goes out of scope.  Several kernel threads, numbered by \<open>nat\<close>, may use the
  same handle.  A thread's call goes through four steps: it starts a call on a live
  handle, acquires the lock when it is free (\<open>SpinMutex::lock\<close> spins until then),
  runs the inner operation, and drops the guard.  The two logs are ghost state: the
  order in which threads acquired each lock and the order in which their hypercalls
  ran.
\<close>

section \<open>Definitions\<close>

datatype fh_call = Call_read u64 usize | Call_write u64 usize | Call_lseek isize SeekWhence

primrec fh_call_run ::
  "env \<Rightarrow> handle \<Rightarrow> fh_call \<Rightarrow> fstate \<Rightarrow> ((isize, IoError) result \<times> fstate) fallible" where
  "fh_call_run e h (Call_read buf len) s = UhyveFileHandle_read e h buf len s"
| "fh_call_run e h (Call_write buf len) s = UhyveFileHandle_write e h buf len s"
| "fh_call_run e h (Call_lseek off wh) s = UhyveFileHandle_lseek e h off wh s"

primrec call_port :: "fh_call \<Rightarrow> u16" where
  "call_port (Call_read buf len) = UHYVE_PORT_READ"
| "call_port (Call_write buf len) = UHYVE_PORT_WRITE"
| "call_port (Call_lseek off wh) = UHYVE_PORT_LSEEK"

datatype tpc = Idle | Waiting handle fh_call | Holding handle fh_call | Finished handle

record lsys =
  pcs :: "nat \<Rightarrow> tpc"
  holder :: "handle \<Rightarrow> nat option"
  acq_log :: "(nat \<times> handle) list"
  run_log :: "(nat \<times> handle) list"
  fs :: fstate

inductive lock_step :: "env \<Rightarrow> lsys \<Rightarrow> lsys \<Rightarrow> bool" for e where
  start_call: "pcs \<sigma> t = Idle \<Longrightarrow> arcs (fs \<sigma>) h \<noteq> None \<Longrightarrow>
     lock_step e \<sigma> (\<sigma>\<lparr>pcs := (pcs \<sigma>)(t := Waiting h c)\<rparr>)"
| acquire: "pcs \<sigma> t = Waiting h c \<Longrightarrow> holder \<sigma> h = None \<Longrightarrow>
     lock_step e \<sigma> (\<sigma>\<lparr>pcs := (pcs \<sigma>)(t := Holding h c), holder := (holder \<sigma>)(h \<mapsto> t),
                     acq_log := acq_log \<sigma> @ [(t, h)]\<rparr>)"
| run: "pcs \<sigma> t = Holding h c \<Longrightarrow> fh_call_run e h c (fs \<sigma>) = Inr (r, s') \<Longrightarrow>
     lock_step e \<sigma> (\<sigma>\<lparr>pcs := (pcs \<sigma>)(t := Finished h), run_log := run_log \<sigma> @ [(t, h)], fs := s'\<rparr>)"
| release: "pcs \<sigma> t = Finished h \<Longrightarrow>
     lock_step e \<sigma> (\<sigma>\<lparr>pcs := (pcs \<sigma>)(t := Idle), holder := (holder \<sigma>)(h := None)\<rparr>)"

definition lock_init :: "lsys \<Rightarrow> bool" where
  "lock_init \<sigma> \<longleftrightarrow> (\<forall>t. pcs \<sigma> t = Idle) \<and> (\<forall>h. holder \<sigma> h = None) \<and> acq_log \<sigma> = [] \<and> run_log \<sigma> = []"

inductive lock_reach :: "env \<Rightarrow> lsys \<Rightarrow> bool" for e where
  lock_start: "lock_init \<sigma> \<Longrightarrow> lock_reach e \<sigma>"
| lock_next: "lock_reach e \<sigma> \<Longrightarrow> lock_step e \<sigma> \<sigma>' \<Longrightarrow> lock_reach e \<sigma>'"

text \<open>A thread is inside the guard of \<open>h\<close> from acquiring it to releasing it.\<close>

primrec in_guard :: "handle \<Rightarrow> tpc \<Rightarrow> bool" where
  "in_guard h Idle = False"
| "in_guard h (Waiting h' c) = False"
| "in_guard h (Holding h' c) = (h' = h)"
| "in_guard h (Finished h') = (h' = h)"

primrec pending :: "handle \<Rightarrow> tpc \<Rightarrow> bool" where
  "pending h Idle = False"
| "pending h (Waiting h' c) = False"
| "pending h (Holding h' c) = (h' = h)"
| "pending h (Finished h') = False"

definition threads_of :: "handle \<Rightarrow> (nat \<times> handle) list \<Rightarrow> nat list" where
  "threads_of h log = map fst (filter (\<lambda>(t, h'). h' = h) log)"

text \<open>
  The invariant: the holder of a lock is exactly the thread inside its guard, and the
  hypercalls run on a handle are the acquisitions of its lock in order, but for the
  holder's own when it has not yet run.
\<close>

definition lock_inv :: "lsys \<Rightarrow> bool" where
  "lock_inv \<sigma> \<longleftrightarrow>
     (\<forall>h t. holder \<sigma> h = Some t \<longleftrightarrow> in_guard h (pcs \<sigma> t)) \<and>
     (\<forall>h t. pending h (pcs \<sigma> t) \<longrightarrow> threads_of h (acq_log \<sigma>) = threads_of h (run_log \<sigma>) @ [t]) \<and>
     (\<forall>h. (\<forall>t. \<not> pending h (pcs \<sigma> t)) \<longrightarrow> threads_of h (acq_log \<sigma>) = threads_of h (run_log \<sigma>))"

text \<open>A lock system with one open handle (descriptor 3, handle 0) and all threads idle.\<close>

definition lock_demo0 :: lsys where
  "lock_demo0 = \<lparr>pcs = \<lambda>_. Idle, holder = \<lambda>_. None, acq_log = [], run_log = [],
                 fs = snd (UhyveFileHandle_new 3 fh_demo_state)\<rparr>"

text \<open>The same system after thread 0 has started a two-byte write on handle 0 and taken its lock.\<close>

definition lock_demo_held :: lsys where
  "lock_demo_held = lock_demo0\<lparr>pcs := (\<lambda>_. Idle)(0 := Holding 0 (Call_write 0x5000 2)),
                               holder := (\<lambda>_. None)(0 \<mapsto> 0), acq_log := [(0, 0)]\<rparr>"

section \<open>The lock invariant\<close>

lemma threads_of_append [simp]:
  "threads_of h (xs @ [(t, h')]) = threads_of h xs @ (if h' = h then [t] else [])"
  by (simp add: threads_of_def)

lemma threads_of_Nil [simp]: "threads_of h [] = []"
  by (simp add: threads_of_def)

lemma pending_in_guard: "pending h p \<Longrightarrow> in_guard h p"
  by (cases p) simp_all

lemma lock_invI:
  assumes "\<And>h t. holder \<sigma> h = Some t \<longleftrightarrow> in_guard h (pcs \<sigma> t)"
    and "\<And>h t. pending h (pcs \<sigma> t) \<Longrightarrow> threads_of h (acq_log \<sigma>) = threads_of h (run_log \<sigma>) @ [t]"
    and "\<And>h. (\<And>t. \<not> pending h (pcs \<sigma> t)) \<Longrightarrow> threads_of h (acq_log \<sigma>) = threads_of h (run_log \<sigma>)"
  shows "lock_inv \<sigma>"
  using assms by (simp add: lock_inv_def)

lemma lock_invD:
  assumes "lock_inv \<sigma>"
  shows "holder \<sigma> h = Some t \<longleftrightarrow> in_guard h (pcs \<sigma> t)"
    and "pending h (pcs \<sigma> t) \<Longrightarrow> threads_of h (acq_log \<sigma>) = threads_of h (run_log \<sigma>) @ [t]"
    and "(\<And>t. \<not> pending h (pcs \<sigma> t)) \<Longrightarrow> threads_of h (acq_log \<sigma>) = threads_of h (run_log \<sigma>)"
  using assms by (auto simp: lock_inv_def)

lemma lock_inv_guard_unique:
  "lock_inv \<sigma> \<Longrightarrow> in_guard h (pcs \<sigma> t1) \<Longrightarrow> in_guard h (pcs \<sigma> t2) \<Longrightarrow> t1 = t2"
  using lock_invD(1) [of \<sigma> h t1] lock_invD(1) [of \<sigma> h t2] by (metis option.inject)

lemma lock_init_inv: "lock_init \<sigma> \<Longrightarrow> lock_inv \<sigma>"
  by (simp add: lock_init_def lock_inv_def)

lemma lock_inv_start_call:
  assumes "lock_inv \<sigma>" "pcs \<sigma> t = Idle"
  shows "lock_inv (\<sigma>\<lparr>pcs := (pcs \<sigma>)(t := Waiting h c)\<rparr>)"
proof -
  note D = lock_invD [OF assms(1)]
  show ?thesis
    apply (rule lock_invI)
    subgoal for h' t'
      using D(1) [of h' t'] assms(2) by (cases "t' = t") simp_all
    subgoal for h' t'
      using D(2) [of h' t'] by (cases "t' = t") simp_all
    subgoal premises p for h'
    proof -
      have "\<not> pending h' (pcs \<sigma> t')" for t'
        using p [of t'] assms(2) by (cases "t' = t") simp_all
      then show ?thesis using D(3) [of h'] by simp
    qed
    done
qed

lemma lock_inv_acquire:
  assumes "lock_inv \<sigma>" "pcs \<sigma> t = Waiting h c" "holder \<sigma> h = None"
  shows "lock_inv (\<sigma>\<lparr>pcs := (pcs \<sigma>)(t := Holding h c), holder := (holder \<sigma>)(h \<mapsto> t),
                     acq_log := acq_log \<sigma> @ [(t, h)]\<rparr>)"
proof -
  note D = lock_invD [OF assms(1)]
  have free: "\<not> pending h (pcs \<sigma> t')" for t'
    using D(1) [of h t'] assms(3) pending_in_guard by fastforce
  show ?thesis
    apply (rule lock_invI)
    subgoal for h' t'
      using D(1) [of h' t'] D(1) [of h t'] assms(2,3) by (cases "h' = h"; cases "t' = t") simp_all
    subgoal premises p for h' t'
    proof (cases "t' = t")
      case True
      then have "h' = h" using p by simp
      then show ?thesis using True D(3) [of h] free by simp
    next
      case False
      then show ?thesis using p D(2) [of h' t'] free [of t'] by (cases "h' = h") simp_all
    qed
    subgoal premises p for h'
    proof -
      have "h' \<noteq> h" using p [of t] by simp
      moreover have "\<not> pending h' (pcs \<sigma> t')" for t'
        using p [of t'] assms(2) by (cases "t' = t") simp_all
      ultimately show ?thesis using D(3) [of h'] by simp
    qed
    done
qed

lemma lock_inv_run:
  assumes "lock_inv \<sigma>" "pcs \<sigma> t = Holding h c"
  shows "lock_inv (\<sigma>\<lparr>pcs := (pcs \<sigma>)(t := Finished h), run_log := run_log \<sigma> @ [(t, h)], fs := s'\<rparr>)"
proof -
  note D = lock_invD [OF assms(1)]
  have uniq: "\<not> pending h (pcs \<sigma> t')" if "t' \<noteq> t" for t'
    using lock_inv_guard_unique [OF assms(1) pending_in_guard, of h t' t] assms(2) that by auto
  show ?thesis
    apply (rule lock_invI)
    subgoal for h' t'
      using D(1) [of h' t'] assms(2) by (cases "t' = t") simp_all
    subgoal for h' t'
      using D(2) [of h' t'] uniq [of t'] by (cases "t' = t"; cases "h' = h") simp_all
    subgoal premises p for h'
    proof (cases "h' = h")
      case True
      then show ?thesis using D(2) [of h t] assms(2) by simp
    next
      case False
      have "\<not> pending h' (pcs \<sigma> t')" for t'
        using p [of t'] assms(2) False by (cases "t' = t") simp_all
      then show ?thesis using D(3) [of h'] False by simp
    qed
    done
qed

lemma lock_inv_release:
  assumes "lock_inv \<sigma>" "pcs \<sigma> t = Finished h"
  shows "lock_inv (\<sigma>\<lparr>pcs := (pcs \<sigma>)(t := Idle), holder := (holder \<sigma>)(h := None)\<rparr>)"
proof -
  note D = lock_invD [OF assms(1)]
  have uniq: "\<not> in_guard h (pcs \<sigma> t')" if "t' \<noteq> t" for t'
    using lock_inv_guard_unique [OF assms(1), of h t' t] assms(2) that by auto
  show ?thesis
    apply (rule lock_invI)
    subgoal for h' t'
      using D(1) [of h' t'] D(1) [of h t] assms(2) uniq [of t'] by (cases "h' = h"; cases "t' = t") auto
    subgoal for h' t'
      using D(2) [of h' t'] by (cases "t' = t") simp_all
    subgoal premises p for h'
    proof -
      have "\<not> pending h' (pcs \<sigma> t')" for t'
        using p [of t'] assms(2) by (cases "t' = t") simp_all
      then show ?thesis using D(3) [of h'] by simp
    qed
    done
qed


lemma lock_step_inv: "lock_step e \<sigma> \<sigma>' \<Longrightarrow> lock_inv \<sigma> \<Longrightarrow> lock_inv \<sigma>'"
  by (induction rule: lock_step.induct)
     (simp_all add: lock_inv_start_call lock_inv_acquire lock_inv_run lock_inv_release)

lemma lock_reach_inv: "lock_reach e \<sigma> \<Longrightarrow> lock_inv \<sigma>"
  by (induction rule: lock_reach.induct) (simp_all add: lock_init_inv lock_step_inv)

lemma fh_call_run_accesses:
  "fh_call_run e h c s = Inr (r, s') \<Longrightarrow> accesses (call_port c) s s'"
  by (cases c) (simp_all add: UhyveFileHandle_read_accesses UhyveFileHandle_write_accesses
      UhyveFileHandle_lseek_accesses)

lemma lock_demo_held_reach: "lock_reach e lock_demo_held"
proof -
  let ?c = "Call_write 0x5000 2"
  let ?\<sigma>1 = "lock_demo0\<lparr>pcs := (pcs lock_demo0)(0 := Waiting 0 ?c)\<rparr>"
  have r0: "lock_reach e lock_demo0"
    by (rule lock_start) (simp add: lock_init_def lock_demo0_def)
  have s1: "lock_step e lock_demo0 ?\<sigma>1"
    by (rule start_call) (simp_all add: lock_demo0_def UhyveFileHandle_new_def fh_demo_state_def)
  have s2: "lock_step e ?\<sigma>1 (?\<sigma>1\<lparr>pcs := (pcs ?\<sigma>1)(0 := Holding 0 ?c), holder := (holder ?\<sigma>1)(0 \<mapsto> 0),
                                acq_log := acq_log ?\<sigma>1 @ [(0, 0)]\<rparr>)"
    by (rule acquire) (simp_all add: lock_demo0_def)
  have "lock_reach e (?\<sigma>1\<lparr>pcs := (pcs ?\<sigma>1)(0 := Holding 0 ?c), holder := (holder ?\<sigma>1)(0 \<mapsto> 0),
                                acq_log := acq_log ?\<sigma>1 @ [(0, 0)]\<rparr>)"
    by (rule lock_next [OF lock_next [OF r0 s1] s2])
  then show ?thesis by (simp add: lock_demo0_def lock_demo_held_def)
qed

lemma lock_demo_held_write:
  "\<exists>s'. fh_call_run (demo_env demo_host) 0 (Call_write 0x5000 2) (fs lock_demo_held) = Inr (Ok 2, s')"
  by (simp add: lock_demo_held_def lock_demo0_def UhyveFileHandle_write_def with_cell_def
      Inner_write_def send_frame_demo_kinds UhyveFileHandle_new_def fh_demo_state_def
      SysWrite_new_def isize_of_usize_def Let_def)



text \<open>
  C16.  Hypercalls on a handle run in the order its lock was acquired: the threads
  whose hypercalls ran on handle \<open>h\<close>, in order, are the threads that acquired the
  lock of \<open>h\<close>, in order, missing at most the last one, which holds the lock and has
  not yet made its hypercall.
\<close>

theorem hypercalls_follow_acquisition:
  "lock_reach e \<sigma> \<Longrightarrow>
   \<exists>xs. threads_of h (acq_log \<sigma>) = threads_of h (run_log \<sigma>) @ xs \<and> length xs \<le> 1 \<and>
        (\<forall>t \<in> set xs. holder \<sigma> h = Some t \<and> pending h (pcs \<sigma> t))"
proof -
  assume "lock_reach e \<sigma>"
  then have I: "lock_inv \<sigma>" by (rule lock_reach_inv)
  show ?thesis
  proof (cases "\<exists>t. pending h (pcs \<sigma> t)")
    case True
    then obtain t where p: "pending h (pcs \<sigma> t)" ..
    then show ?thesis
      using lock_invD(1,2) [OF I, of h t] pending_in_guard [OF p] by (intro exI [of _ "[t]"]) simp
  next
    case False
    then show ?thesis using lock_invD(3) [OF I, of h] by simp
  qed
qed

theorem hypercalls_follow_acquisition_witness:
  "lock_reach (demo_env demo_host) lock_demo_held \<and>
   (\<exists>xs. threads_of 0 (acq_log lock_demo_held) = threads_of 0 (run_log lock_demo_held) @ xs \<and>
         length xs \<le> 1 \<and> (\<forall>t \<in> set xs. holder lock_demo_held 0 = Some t \<and> pending 0 (pcs lock_demo_held t)))"
  using hypercalls_follow_acquisition [OF lock_demo_held_reach [of "demo_env demo_host"], of 0]
  by (simp add: lock_demo_held_reach)

text \<open>
  C17.  Only the lock holder talks to the host: a step of the lock protocol either
  leaves the file-handle store and the hypercall log unchanged, or it is the holder
  of a handle's lock running its operation, which appends exactly one hypercall, on
  the operation's port, to the trace, one entry to the run log, and changes no handle.
\<close>

theorem lock_step_hypercalls:
  "lock_reach e \<sigma> \<Longrightarrow> lock_step e \<sigma> \<sigma>' \<Longrightarrow>
   (fs \<sigma>' = fs \<sigma> \<and> run_log \<sigma>' = run_log \<sigma>) \<or>
   (\<exists>t h c. pcs \<sigma> t = Holding h c \<and> holder \<sigma> h = Some t \<and> run_log \<sigma>' = run_log \<sigma> @ [(t, h)] \<and>
            accesses (call_port c) (fs \<sigma>) (fs \<sigma>'))"
proof -
  assume r: "lock_reach e \<sigma>" and st: "lock_step e \<sigma> \<sigma>'"
  from st show ?thesis
  proof cases
    case (run t h c r s')
    then show ?thesis
      using lock_invD(1) [OF lock_reach_inv [OF r], of h t] fh_call_run_accesses [OF run(3)] by auto
  qed simp_all
qed

theorem lock_step_hypercalls_witness:
  "\<exists>\<sigma>'. lock_reach (demo_env demo_host) lock_demo_held \<and> lock_step (demo_env demo_host) lock_demo_held \<sigma>' \<and>
        run_log \<sigma>' = [(0, 0)] \<and>
        ((fs \<sigma>' = fs lock_demo_held \<and> run_log \<sigma>' = run_log lock_demo_held) \<or>
         (\<exists>t h c. pcs lock_demo_held t = Holding h c \<and> holder lock_demo_held h = Some t \<and>
                  run_log \<sigma>' = run_log lock_demo_held @ [(t, h)] \<and>
                  accesses (call_port c) (fs lock_demo_held) (fs \<sigma>')))"
proof -
  let ?e = "demo_env demo_host"
  obtain s' where w: "fh_call_run ?e 0 (Call_write 0x5000 2) (fs lock_demo_held) = Inr (Ok 2, s')"
    using lock_demo_held_write by blast
  let ?\<sigma>' = "lock_demo_held\<lparr>pcs := (pcs lock_demo_held)(0 := Finished 0),
                run_log := run_log lock_demo_held @ [(0, 0)], fs := s'\<rparr>"
  have st: "lock_step ?e lock_demo_held ?\<sigma>'"
    by (rule run [OF _ w]) (simp add: lock_demo_held_def)
  have "run_log ?\<sigma>' = [(0, 0)]" by (simp add: lock_demo_held_def lock_demo0_def)
  then show ?thesis
    using lock_step_hypercalls [OF lock_demo_held_reach st] lock_demo_held_reach st by blast
qed

end
