(* ===== verification/LockProgress.thy ===== *)
theory LockProgress
  imports HandleLock
begin

text \<open>
  Progress of the spin lock of \<open>UhyveFileHandle\<close> (\<open>src/src/fs/uhyve.rs\<close>, lines
  210--222), over the protocol of \<open>HandleLock\<close>.  \<open>SpinMutex::lock\<close> spins until the
  lock is free.  Its wait ends when the holder's call returns (liveness).  When every
  outstanding call returns, the protocol drains: all threads come back to \<open>Idle\<close>
  and every lock is free (termination).  A call returns when its hypercall is
  answered and its result converts without a panic; \<open>calls_return\<close> assumes this
  for the calls the threads have started, in every state with the same handle
  store, since the lock protocol never changes the store.
\<close>

section \<open>Definitions\<close>

definition active :: "lsys \<Rightarrow> nat set" where
  "active \<sigma> = {t. pcs \<sigma> t \<noteq> Idle}"

definition calls_return :: "env \<Rightarrow> lsys \<Rightarrow> bool" where
  "calls_return e \<sigma> \<longleftrightarrow> (\<forall>t h c s. (pcs \<sigma> t = Waiting h c \<or> pcs \<sigma> t = Holding h c) \<longrightarrow>
     arcs s = arcs (fs \<sigma>) \<longrightarrow> (\<exists>r s'. fh_call_run e h c s = Inr (r, s')))"

text \<open>The demo system of \<open>HandleLock\<close> with thread 1 waiting to seek on handle 0 while thread 0 holds it.\<close>

definition lock_demo_wait :: lsys where
  "lock_demo_wait = lock_demo_held\<lparr>pcs := (pcs lock_demo_held)(1 := Waiting 0 (Call_lseek 0 Set))\<rparr>"

section \<open>Lemmas\<close>

lemma lock_free_acquire:
  "pcs \<sigma> t = Waiting h c \<Longrightarrow> holder \<sigma> h = None \<Longrightarrow> \<exists>\<sigma>'. lock_step e \<sigma> \<sigma>' \<and> pcs \<sigma>' t = Holding h c"
proof -
  assume "pcs \<sigma> t = Waiting h c" "holder \<sigma> h = None"
  then have "lock_step e \<sigma> (\<sigma>\<lparr>pcs := (pcs \<sigma>)(t := Holding h c), holder := (holder \<sigma>)(h \<mapsto> t),
                     acq_log := acq_log \<sigma> @ [(t, h)]\<rparr>)" by (rule acquire)
  then show ?thesis by fastforce
qed

lemma lock_release_acquire:
  assumes "pcs \<sigma> t' = Finished h" "pcs \<sigma> t = Waiting h c" "t' \<noteq> t"
  shows "\<exists>\<sigma>'. (lock_step e)\<^sup>*\<^sup>* \<sigma> \<sigma>' \<and> pcs \<sigma>' t = Holding h c"
proof -
  let ?\<sigma>1 = "\<sigma>\<lparr>pcs := (pcs \<sigma>)(t' := Idle), holder := (holder \<sigma>)(h := None)\<rparr>"
  have s1: "lock_step e \<sigma> ?\<sigma>1" by (rule release [OF assms(1)])
  obtain \<sigma>2 where s2: "lock_step e ?\<sigma>1 \<sigma>2" and p: "pcs \<sigma>2 t = Holding h c"
    using lock_free_acquire [of ?\<sigma>1 t h c e] assms(2,3) by auto
  show ?thesis using s1 s2 p by (blast intro: rtranclp.rtrancl_into_rtrancl)
qed

lemma lock_step_arcs: "lock_step e \<sigma> \<sigma>' \<Longrightarrow> arcs (fs \<sigma>') = arcs (fs \<sigma>)"
  by (induction rule: lock_step.induct) (auto dest!: fh_call_run_accesses simp: accesses_def)

lemma lock_steps_arcs: "(lock_step e)\<^sup>*\<^sup>* \<sigma> \<sigma>' \<Longrightarrow> arcs (fs \<sigma>') = arcs (fs \<sigma>)"
  by (induction rule: rtranclp_induct) (simp_all add: lock_step_arcs)

lemma lock_steps_reach: "(lock_step e)\<^sup>*\<^sup>* \<sigma> \<sigma>' \<Longrightarrow> lock_reach e \<sigma> \<Longrightarrow> lock_reach e \<sigma>'"
  by (induction rule: rtranclp_induct) (auto intro: lock_next)

lemma lock_step_pcs: "lock_step e \<sigma> \<sigma>' \<Longrightarrow> \<exists>t p. pcs \<sigma>' = (pcs \<sigma>)(t := p)"
  by (induction rule: lock_step.induct) auto

lemma lock_reach_finite_active: "lock_reach e \<sigma> \<Longrightarrow> finite (active \<sigma>)"
proof (induction rule: lock_reach.induct)
  case (lock_start \<sigma>)
  then show ?case by (simp add: lock_init_def active_def)
next
  case (lock_next \<sigma> \<sigma>')
  obtain t p where "pcs \<sigma>' = (pcs \<sigma>)(t := p)" using lock_step_pcs [OF lock_next.hyps(2)] by blast
  then have "active \<sigma>' \<subseteq> insert t (active \<sigma>)" by (auto simp: active_def)
  then show ?case using lock_next.IH by (rule finite_subset [OF _ finite.insertI])
qed

lemma in_guard_cases: "in_guard h p \<Longrightarrow> \<exists>c. p = Holding h c \<or> p = Finished h"
  by (cases p) auto

text \<open>A thread inside the guard of \<open>h\<close> runs its call, if it has not yet, and drops the guard.\<close>

lemma finish_guard:
  assumes r: "lock_reach e \<sigma>" and cr: "calls_return e \<sigma>"
    and p: "pcs \<sigma> t = Holding h c \<or> pcs \<sigma> t = Finished h"
  shows "\<exists>\<sigma>'. (lock_step e)\<^sup>*\<^sup>* \<sigma> \<sigma>' \<and> pcs \<sigma>' = (pcs \<sigma>)(t := Idle) \<and> holder \<sigma>' h = None"
proof -
  have fin: "\<exists>\<sigma>'. lock_step e \<sigma>1 \<sigma>' \<and> pcs \<sigma>' = (pcs \<sigma>1)(t := Idle) \<and> holder \<sigma>' h = None"
    if "pcs \<sigma>1 t = Finished h" for \<sigma>1
    using release [OF that, of e] by fastforce
  show ?thesis
  proof (cases "pcs \<sigma> t = Finished h")
    case True
    then show ?thesis using fin [of \<sigma>] by blast
  next
    case False
    with p have hc: "pcs \<sigma> t = Holding h c" by simp
    then obtain r s' where ok: "fh_call_run e h c (fs \<sigma>) = Inr (r, s')"
      using cr unfolding calls_return_def by blast
    let ?\<sigma>1 = "\<sigma>\<lparr>pcs := (pcs \<sigma>)(t := Finished h), run_log := run_log \<sigma> @ [(t, h)], fs := s'\<rparr>"
    have s1: "lock_step e \<sigma> ?\<sigma>1" by (rule run [OF hc ok])
    obtain \<sigma>' where "lock_step e ?\<sigma>1 \<sigma>'" "pcs \<sigma>' = (pcs ?\<sigma>1)(t := Idle)" "holder \<sigma>' h = None"
      using fin [of ?\<sigma>1] by auto
    then show ?thesis using s1 by (auto intro: converse_rtranclp_into_rtranclp)
  qed
qed

lemma calls_return_steps:
  assumes "calls_return e \<sigma>" "(lock_step e)\<^sup>*\<^sup>* \<sigma> \<sigma>'" "\<And>u. pcs \<sigma>' u = pcs \<sigma> u \<or> pcs \<sigma>' u = Idle"
  shows "calls_return e \<sigma>'"
  unfolding calls_return_def
proof (intro allI impI)
  fix t h c and s :: fstate
  assume "pcs \<sigma>' t = Waiting h c \<or> pcs \<sigma>' t = Holding h c" and "arcs s = arcs (fs \<sigma>')"
  moreover have "arcs (fs \<sigma>') = arcs (fs \<sigma>)" by (rule lock_steps_arcs [OF assms(2)])
  ultimately show "\<exists>r s'. fh_call_run e h c s = Inr (r, s')"
    using assms(1) assms(3) [of t] unfolding calls_return_def by auto
qed

text \<open>Any active thread can be brought back to \<open>Idle\<close> without starting another call.\<close>

lemma finish_thread:
  assumes r: "lock_reach e \<sigma>" and cr: "calls_return e \<sigma>" and a: "pcs \<sigma> t \<noteq> Idle"
  shows "\<exists>\<sigma>'. (lock_step e)\<^sup>*\<^sup>* \<sigma> \<sigma>' \<and> pcs \<sigma>' t = Idle \<and> (\<forall>u. pcs \<sigma>' u = pcs \<sigma> u \<or> pcs \<sigma>' u = Idle)"
proof (cases "pcs \<sigma> t")
  case (Waiting h c)
  note I = lock_reach_inv [OF r]
  have acq_fin: "\<exists>\<sigma>'. (lock_step e)\<^sup>*\<^sup>* \<sigma>1 \<sigma>' \<and> pcs \<sigma>' = (pcs \<sigma>1)(t := Idle)"
    if r1: "lock_reach e \<sigma>1" and c1: "calls_return e \<sigma>1" and w1: "pcs \<sigma>1 t = Waiting h c"
      and h1: "holder \<sigma>1 h = None" for \<sigma>1
  proof -
    let ?\<sigma>2 = "\<sigma>1\<lparr>pcs := (pcs \<sigma>1)(t := Holding h c), holder := (holder \<sigma>1)(h \<mapsto> t),
                     acq_log := acq_log \<sigma>1 @ [(t, h)]\<rparr>"
    have s: "lock_step e \<sigma>1 ?\<sigma>2" by (rule acquire [OF w1 h1])
    have cr2: "calls_return e ?\<sigma>2"
      using c1 lock_step_arcs [OF s] w1 unfolding calls_return_def by auto
    obtain \<sigma>' where "(lock_step e)\<^sup>*\<^sup>* ?\<sigma>2 \<sigma>'" "pcs \<sigma>' = (pcs ?\<sigma>2)(t := Idle)"
      using finish_guard [OF lock_next [OF r1 s] cr2, of t h c] by auto
    then show ?thesis using s by (auto intro: converse_rtranclp_into_rtranclp)
  qed
  show ?thesis
  proof (cases "holder \<sigma> h")
    case None
    then show ?thesis using acq_fin [OF r cr Waiting] by fastforce
  next
    case (Some t')
    then have g: "in_guard h (pcs \<sigma> t')" using lock_invD(1) [OF I] by blast
    have ne: "t' \<noteq> t" using g Waiting by auto
    obtain c' where p': "pcs \<sigma> t' = Holding h c' \<or> pcs \<sigma> t' = Finished h"
      using in_guard_cases [OF g] by blast
    obtain \<sigma>1 where s1: "(lock_step e)\<^sup>*\<^sup>* \<sigma> \<sigma>1" and p1: "pcs \<sigma>1 = (pcs \<sigma>)(t' := Idle)"
      and h1: "holder \<sigma>1 h = None"
      using finish_guard [OF r cr p'] by blast
    have cr1: "calls_return e \<sigma>1" by (rule calls_return_steps [OF cr s1]) (simp add: p1)
    obtain \<sigma>' where s2: "(lock_step e)\<^sup>*\<^sup>* \<sigma>1 \<sigma>'" and p2: "pcs \<sigma>' = (pcs \<sigma>1)(t := Idle)"
      using acq_fin [OF lock_steps_reach [OF s1 r] cr1 _ h1] Waiting ne p1 by auto
    have "pcs \<sigma>' t = Idle" "\<forall>u. pcs \<sigma>' u = pcs \<sigma> u \<or> pcs \<sigma>' u = Idle"
      using p1 p2 by simp_all
    then show ?thesis using rtranclp_trans [OF s1 s2] by blast
  qed
next
  case (Holding h c)
  then show ?thesis using finish_guard [OF r cr, of t h c] by fastforce
next
  case (Finished h)
  then show ?thesis using finish_guard [OF r cr, of t h undefined] by fastforce
qed (use a in simp)

lemma drain:
  assumes "finite A"
  shows "lock_reach e \<sigma> \<Longrightarrow> calls_return e \<sigma> \<Longrightarrow> active \<sigma> = A \<Longrightarrow>
         \<exists>\<sigma>'. (lock_step e)\<^sup>*\<^sup>* \<sigma> \<sigma>' \<and> (\<forall>t. pcs \<sigma>' t = Idle)"
  using assms
proof (induction A arbitrary: \<sigma> rule: finite_psubset_induct)
  case (psubset A)
  show ?case
  proof (cases "A = {}")
    case True
    then show ?thesis using psubset.prems(3) by (auto simp: active_def)
  next
    case False
    then obtain t where t: "t \<in> A" by blast
    then have "pcs \<sigma> t \<noteq> Idle" using psubset.prems(3) by (auto simp: active_def)
    then obtain \<sigma>1 where s1: "(lock_step e)\<^sup>*\<^sup>* \<sigma> \<sigma>1" and i: "pcs \<sigma>1 t = Idle"
      and u: "\<forall>u. pcs \<sigma>1 u = pcs \<sigma> u \<or> pcs \<sigma>1 u = Idle"
      using finish_thread [OF psubset.prems(1,2)] by blast
    have "pcs \<sigma> x \<noteq> Idle" if "pcs \<sigma>1 x \<noteq> Idle" for x
      using u that by metis
    then have sub: "active \<sigma>1 \<subset> A"
      using psubset.prems(3) t i by (auto simp: active_def)
    have cr1: "calls_return e \<sigma>1" using calls_return_steps [OF psubset.prems(2) s1] u by blast
    obtain \<sigma>' where "(lock_step e)\<^sup>*\<^sup>* \<sigma>1 \<sigma>'" "\<forall>t. pcs \<sigma>' t = Idle"
      using psubset.IH [OF sub lock_steps_reach [OF s1 psubset.prems(1)] cr1 refl] by blast
    then show ?thesis using s1 by (auto intro: rtranclp_trans)
  qed
qed

lemma lock_demo_wait_reach: "lock_reach e lock_demo_wait"
proof -
  have st: "lock_step e lock_demo_held lock_demo_wait"
    unfolding lock_demo_wait_def
    by (rule start_call) (simp_all add: lock_demo_held_def lock_demo0_def UhyveFileHandle_new_def fh_demo_state_def)
  show ?thesis by (rule lock_next [OF lock_demo_held_reach st])
qed

lemma calls_return_demo_wait: "calls_return (demo_env demo_host) lock_demo_wait"
  unfolding calls_return_def
proof (intro allI impI)
  fix t h c and s :: fstate
  assume p: "pcs lock_demo_wait t = Waiting h c \<or> pcs lock_demo_wait t = Holding h c"
    and a: "arcs s = arcs (fs lock_demo_wait)"
  have cell: "arcs s 0 = Some \<lparr>strong = 1, inner_fd = 3\<rparr>"
    using a by (simp add: lock_demo_wait_def lock_demo_held_def lock_demo0_def UhyveFileHandle_new_def
        fh_demo_state_def)
  from p have "h = 0 \<and> (c = Call_write 0x5000 2 \<or> c = Call_lseek 0 Set)"
    by (auto simp: lock_demo_wait_def lock_demo_held_def lock_demo0_def split: if_splits)
  then show "\<exists>r s'. fh_call_run (demo_env demo_host) h c s = Inr (r, s')"
    using cell
    by (auto simp: UhyveFileHandle_write_def UhyveFileHandle_lseek_def with_cell_def Inner_write_def
        Inner_lseek_def SysWrite_new_def SysLseek_new_def send_frame_demo_kinds isize_of_usize_def Let_def)
qed

text \<open>
  C22.  Liveness of the spin lock: a thread waiting for the lock of a handle acquires
  it after finitely many steps whenever the thread inside the guard completes its
  call (its hypercall returns).  The holder runs its call, drops the guard, and the
  waiting thread's \<open>SpinMutex::lock\<close> succeeds.
\<close>

theorem waiting_thread_acquires:
  "lock_reach e \<sigma> \<Longrightarrow> pcs \<sigma> t = Waiting h c \<Longrightarrow>
   (\<forall>t' c'. pcs \<sigma> t' = Holding h c' \<longrightarrow> (\<exists>r s'. fh_call_run e h c' (fs \<sigma>) = Inr (r, s'))) \<Longrightarrow>
   \<exists>\<sigma>'. (lock_step e)\<^sup>*\<^sup>* \<sigma> \<sigma>' \<and> pcs \<sigma>' t = Holding h c"
proof -
  assume r: "lock_reach e \<sigma>" and w: "pcs \<sigma> t = Waiting h c"
    and runs: "\<forall>t' c'. pcs \<sigma> t' = Holding h c' \<longrightarrow> (\<exists>r s'. fh_call_run e h c' (fs \<sigma>) = Inr (r, s'))"
  note I = lock_reach_inv [OF r]
  show ?thesis
  proof (cases "holder \<sigma> h")
    case None
    then show ?thesis using lock_free_acquire [OF w] by blast
  next
    case (Some t')
    then have g: "in_guard h (pcs \<sigma> t')" using lock_invD(1) [OF I] by blast
    have ne: "t' \<noteq> t" using g w by auto
    show ?thesis
    proof (cases "pcs \<sigma> t'")
      case (Holding h' c')
      with g have hc: "pcs \<sigma> t' = Holding h c'" by simp
      then obtain r s' where run_ok: "fh_call_run e h c' (fs \<sigma>) = Inr (r, s')" using runs by blast
      let ?\<sigma>1 = "\<sigma>\<lparr>pcs := (pcs \<sigma>)(t' := Finished h), run_log := run_log \<sigma> @ [(t', h)], fs := s'\<rparr>"
      have s1: "lock_step e \<sigma> ?\<sigma>1" by (rule run [OF hc run_ok])
      obtain \<sigma>' where "(lock_step e)\<^sup>*\<^sup>* ?\<sigma>1 \<sigma>'" "pcs \<sigma>' t = Holding h c"
        using lock_release_acquire [of ?\<sigma>1 t' h t c e] w ne by auto
      then show ?thesis using s1 by (blast intro: converse_rtranclp_into_rtranclp)
    next
      case (Finished h')
      with g have "pcs \<sigma> t' = Finished h" by simp
      then show ?thesis using lock_release_acquire w ne by blast
    qed (use g in simp_all)
  qed
qed

theorem waiting_thread_acquires_witness:
  "lock_reach (demo_env demo_host) lock_demo_wait \<and> pcs lock_demo_wait 1 = Waiting 0 (Call_lseek 0 Set) \<and>
   (\<exists>\<sigma>'. (lock_step (demo_env demo_host))\<^sup>*\<^sup>* lock_demo_wait \<sigma>' \<and> pcs \<sigma>' 1 = Holding 0 (Call_lseek 0 Set))"
proof -
  have w: "pcs lock_demo_wait 1 = Waiting 0 (Call_lseek 0 Set)" by (simp add: lock_demo_wait_def)
  have runs: "\<forall>t' c'. pcs lock_demo_wait t' = Holding 0 c' \<longrightarrow>
      (\<exists>r s'. fh_call_run (demo_env demo_host) 0 c' (fs lock_demo_wait) = Inr (r, s'))"
    using calls_return_demo_wait unfolding calls_return_def by blast
  show ?thesis
    using waiting_thread_acquires [OF lock_demo_wait_reach w runs] lock_demo_wait_reach w by blast
qed

text \<open>
  C24.  Termination of the lock protocol: from every reachable state in which the
  calls the threads have started return, the threads can all finish, so that every
  thread is \<open>Idle\<close> and no lock is held.
\<close>

theorem calls_terminate:
  "lock_reach e \<sigma> \<Longrightarrow> calls_return e \<sigma> \<Longrightarrow>
   \<exists>\<sigma>'. (lock_step e)\<^sup>*\<^sup>* \<sigma> \<sigma>' \<and> (\<forall>t. pcs \<sigma>' t = Idle) \<and> (\<forall>h. holder \<sigma>' h = None)"
proof -
  assume r: "lock_reach e \<sigma>" and cr: "calls_return e \<sigma>"
  obtain \<sigma>' where s: "(lock_step e)\<^sup>*\<^sup>* \<sigma> \<sigma>'" and idle: "\<forall>t. pcs \<sigma>' t = Idle"
    using drain [OF lock_reach_finite_active [OF r] r cr refl] by blast
  have "holder \<sigma>' h = None" for h
    using lock_invD(1) [OF lock_reach_inv [OF lock_steps_reach [OF s r]], of h] idle
    by (cases "holder \<sigma>' h") auto
  then show ?thesis using s idle by blast
qed

theorem calls_terminate_witness:
  "lock_reach (demo_env demo_host) lock_demo_wait \<and> calls_return (demo_env demo_host) lock_demo_wait \<and>
   (\<exists>\<sigma>'. (lock_step (demo_env demo_host))\<^sup>*\<^sup>* lock_demo_wait \<sigma>' \<and> (\<forall>t. pcs \<sigma>' t = Idle) \<and>
         (\<forall>h. holder \<sigma>' h = None))"
  using calls_terminate [OF lock_demo_wait_reach calls_return_demo_wait] lock_demo_wait_reach calls_return_demo_wait
  by blast

end
