(* ===== verification/HandleSpec.thy ===== *)
theory HandleSpec
  imports FileHandle
begin

text \<open>
  An abstract specification of the shared file handle, \<open>UhyveFileHandle\<close> of
  \<open>src/src/fs/uhyve.rs\<close> (lines 201--228) with the \<open>Drop\<close> of its inner handle
  (lines 194--199): what a user of \<open>Arc<SpinMutex<UhyveFileHandleInner>>\<close> may rely
  on, stated without reference counts.  The abstract state is the multiset of held
  handles, the descriptor each open handle stands for, and the log of descriptors
  closed at the host.  A handle is created open for a fresh name, cloned, released
  while other references remain, closed (with its descriptor logged) when its last
  reference is released, or used without changing any of this.  The concrete handle
  system of \<open>FileHandle\<close> refines it through \<open>abs_handles\<close>, which forgets the
  strong counts and reads the close log off the hypercall trace.
\<close>

section \<open>Definitions\<close>

record ahandles =
  a_held :: "handle multiset"
  a_open :: "handle \<Rightarrow> i32 option"
  a_closes :: "i32 list"

inductive ah_step :: "ahandles \<Rightarrow> ahandles \<Rightarrow> bool" where
  a_create: "a_open A h = None \<Longrightarrow>
     ah_step A (A\<lparr>a_held := add_mset h (a_held A), a_open := (a_open A)(h \<mapsto> fd)\<rparr>)"
| a_clone: "h \<in># a_held A \<Longrightarrow> ah_step A (A\<lparr>a_held := add_mset h (a_held A)\<rparr>)"
| a_release: "1 < count (a_held A) h \<Longrightarrow> ah_step A (A\<lparr>a_held := a_held A - {#h#}\<rparr>)"
| a_close: "count (a_held A) h = 1 \<Longrightarrow> a_open A h = Some fd \<Longrightarrow>
     ah_step A (A\<lparr>a_held := a_held A - {#h#}, a_open := (a_open A)(h := None),
                  a_closes := a_closes A @ [fd]\<rparr>)"
| a_use: "h \<in># a_held A \<Longrightarrow> ah_step A A"

definition ah_init :: "ahandles \<Rightarrow> bool" where
  "ah_init A \<longleftrightarrow> a_held A = {#} \<and> (\<forall>h. a_open A h = None) \<and> a_closes A = []"

inductive ah_reach :: "ahandles \<Rightarrow> bool" where
  ah_start: "ah_init A \<Longrightarrow> ah_reach A"
| ah_next: "ah_reach A \<Longrightarrow> ah_step A A' \<Longrightarrow> ah_reach A'"

definition abs_handles :: "handle multiset \<times> 'a fstate_scheme \<Rightarrow> ahandles" where
  "abs_handles = (\<lambda>(H, s). \<lparr>a_held = H, a_open = (\<lambda>h. map_option inner_fd (arcs s h)),
                            a_closes = close_fds (trace s)\<rparr>)"

section \<open>Lemmas\<close>

lemma abs_handles_accesses:
  "accesses port s s' \<Longrightarrow> port \<noteq> UHYVE_PORT_CLOSE \<Longrightarrow> abs_handles (H, s') = abs_handles (H, s)"
  by (auto simp: accesses_def abs_handles_def)

lemma refines_new:
  assumes inv: "fh_inv (H, s)" and n: "UhyveFileHandle_new fd s = (h, s')"
  shows "ah_step (abs_handles (H, s)) (abs_handles (add_mset h H, s'))"
proof -
  have h: "h = next_arc s" using n by (simp add: UhyveFileHandle_new_def)
  have fresh: "arcs s h = None"
    using fh_invD(2) [OF inv, of h] h by (cases "arcs s h") auto
  have eq: "abs_handles (add_mset h H, s') = (abs_handles (H, s))\<lparr>a_held := add_mset h (a_held (abs_handles (H, s))),
          a_open := (a_open (abs_handles (H, s)))(h \<mapsto> fd)\<rparr>"
    using n by (auto simp: abs_handles_def UhyveFileHandle_new_def fun_eq_iff)
  have "a_open (abs_handles (H, s)) h = None" using fresh by (simp add: abs_handles_def)
  then show ?thesis unfolding eq by (rule a_create)
qed

lemma refines_clone:
  assumes "h \<in># H" and c: "UhyveFileHandle_clone h s = Inr s'"
  shows "ah_step (abs_handles (H, s)) (abs_handles (add_mset h H, s'))"
proof -
  have eq: "abs_handles (add_mset h H, s') = (abs_handles (H, s))\<lparr>a_held := add_mset h (a_held (abs_handles (H, s)))\<rparr>"
    using c by (auto simp: abs_handles_def UhyveFileHandle_clone_Inr fun_eq_iff)
  have "h \<in># a_held (abs_handles (H, s))" using assms(1) by (simp add: abs_handles_def)
  then show ?thesis unfolding eq by (rule a_clone)
qed

lemma refines_drop:
  assumes inv: "fh_inv (H, s)" and d: "UhyveFileHandle_drop e h s = Inr s'"
  shows "ah_step (abs_handles (H, s)) (abs_handles (H - {#h#}, s'))"
  using d
proof (cases rule: UhyveFileHandle_drop_Inr)
  case (1 c)
  have cnt: "count H h = strong c" using fh_invD(1) [OF inv, of h] 1(1) by simp
  have eq: "abs_handles (H - {#h#}, s') = (abs_handles (H, s))\<lparr>a_held := a_held (abs_handles (H, s)) - {#h#}\<rparr>"
    using 1 by (auto simp: abs_handles_def fun_eq_iff)
  have "1 < count (a_held (abs_handles (H, s))) h"
    using cnt 1(2) fh_invD(2) [OF inv 1(1)] by (simp add: abs_handles_def)
  then show ?thesis unfolding eq by (rule a_release)
next
  case (2 c m a)
  have cnt: "count H h = 1" using fh_invD(1) [OF inv, of h] 2(1,2) by simp
  have eq: "abs_handles (H - {#h#}, s') = (abs_handles (H, s))\<lparr>a_held := a_held (abs_handles (H, s)) - {#h#},
          a_open := (a_open (abs_handles (H, s)))(h := None),
          a_closes := a_closes (abs_handles (H, s)) @ [inner_fd c]\<rparr>"
    using 2 by (auto simp: abs_handles_def fun_eq_iff)
  have "count (a_held (abs_handles (H, s))) h = 1" "a_open (abs_handles (H, s)) h = Some (inner_fd c)"
    using cnt 2(1) by (simp_all add: abs_handles_def)
  then show ?thesis unfolding eq by (rule a_close)
qed

lemma refines_access:
  assumes "h \<in># H" and "accesses port s s'" and "port \<noteq> UHYVE_PORT_CLOSE"
  shows "ah_step (abs_handles (H, s)) (abs_handles (H, s'))"
proof -
  have "h \<in># a_held (abs_handles (H, s))" using assms(1) by (simp add: abs_handles_def)
  then have "ah_step (abs_handles (H, s)) (abs_handles (H, s))" by (rule a_use)
  then show ?thesis using abs_handles_accesses [OF assms(2,3)] by simp
qed

lemma fh_step_refines:
  "fh_inv (H, s) \<Longrightarrow> fh_step e (H, s) (H', s') \<Longrightarrow> ah_step (abs_handles (H, s)) (abs_handles (H', s'))"
  by (erule fh_step.cases)
     (auto intro: refines_new refines_clone refines_drop
        refines_access [OF _ UhyveFileHandle_read_accesses] refines_access [OF _ UhyveFileHandle_write_accesses]
        refines_access [OF _ UhyveFileHandle_lseek_accesses])

lemma fh_init_refines: "fh_init \<sigma> \<Longrightarrow> ah_init (abs_handles \<sigma>)"
  by (auto simp: fh_init_def ah_init_def abs_handles_def)

lemma fh_reach_demo_new: "fh_reach e ({#0#}, snd (UhyveFileHandle_new 3 fh_demo_state))"
proof -
  have new: "UhyveFileHandle_new 3 fh_demo_state = (0, snd (UhyveFileHandle_new 3 fh_demo_state))"
    by (simp add: UhyveFileHandle_new_def fh_demo_state_def)
  have r0: "fh_reach e ({#}, fh_demo_state)"
    by (rule fh_start) (simp add: fh_init_def fh_demo_state_def close_fds_def)
  show ?thesis using fh_next [OF r0 fh_new [OF new]] by simp
qed

text \<open>
  C20.  Refinement: every reachable state of the concrete handle system (strong
  counts in a store of allocations, closes as hypercalls) is, under \<open>abs_handles\<close>,
  a reachable state of the abstract specification, in which a handle's descriptor is
  closed exactly when its last reference is released and only then.
\<close>

theorem handles_refine_spec: "fh_reach e \<sigma> \<Longrightarrow> ah_reach (abs_handles \<sigma>)"
proof (induction rule: fh_reach.induct)
  case (fh_start \<sigma>)
  then show ?case by (rule ah_start [OF fh_init_refines])
next
  case (fh_next \<sigma> \<sigma>')
  obtain H s H' s' where \<sigma>: "\<sigma> = (H, s)" "\<sigma>' = (H', s')" by (cases \<sigma>, cases \<sigma>')
  have "fh_inv (H, s)" using fh_reach_inv fh_next.hyps(1) \<sigma> by blast
  then have "ah_step (abs_handles \<sigma>) (abs_handles \<sigma>')"
    using fh_step_refines fh_next.hyps(2) \<sigma> by blast
  then show ?case by (rule ah_next [OF fh_next.IH])
qed

theorem handles_refine_spec_witness:
  "fh_reach (demo_env echo_host) ({#0#}, snd (UhyveFileHandle_new 3 fh_demo_state)) \<and>
   ah_reach (abs_handles ({#0#}, snd (UhyveFileHandle_new 3 fh_demo_state)))"
  using handles_refine_spec [OF fh_reach_demo_new] fh_reach_demo_new by blast

text \<open>
  C21.  No use after free: in every reachable state of the handle system, no
  operation on a handle its user holds (read, write, lseek, clone, drop) finds its
  allocation freed.
\<close>

theorem held_handles_never_dangle:
  "fh_reach e (H, s) \<Longrightarrow> h \<in># H \<Longrightarrow>
   UhyveFileHandle_read e h buf len s \<noteq> Inl Dangling \<and> UhyveFileHandle_write e h buf len s \<noteq> Inl Dangling \<and>
   UhyveFileHandle_lseek e h off wh s \<noteq> Inl Dangling \<and> UhyveFileHandle_clone h s \<noteq> Inl Dangling \<and>
   UhyveFileHandle_drop e h s \<noteq> Inl Dangling"
proof -
  assume r: "fh_reach e (H, s)" and h: "h \<in># H"
  obtain c where c: "arcs s h = Some c" using fh_inv_held_live [OF fh_reach_inv [OF r] h] by blast
  then show ?thesis
    by (simp add: UhyveFileHandle_read_def UhyveFileHandle_write_def UhyveFileHandle_lseek_def
        UhyveFileHandle_clone_def UhyveFileHandle_drop_def with_cell_def Inner_not_Dangling fbind_eq_Inl)
qed

theorem held_handles_never_dangle_witness:
  "fh_reach (demo_env echo_host) ({#0#}, snd (UhyveFileHandle_new 3 fh_demo_state)) \<and> 0 \<in># {#0::nat#} \<and>
   UhyveFileHandle_read (demo_env echo_host) 0 0x5000 2 (snd (UhyveFileHandle_new 3 fh_demo_state)) \<noteq> Inl Dangling"
  using held_handles_never_dangle [OF fh_reach_demo_new [of "demo_env echo_host"], where h = 0 and buf = "0x5000" and len = 2] fh_reach_demo_new
  by simp

end
