(* ===== verification/HostFS.thy ===== *)
theory HostFS
  imports FileHandle
begin

text \<open>
  A model of the uhyve host's file service, the collaborator on the other side of
  the ports.  It is not code of \<open>src/\<close>: it is modelled from the specification
  (sections 4.2 and 5), which fixes the results the host writes back.  The host
  serves reads, seeks and closes on a static table of open descriptors, each
  standing for a file's contents:
  \<^item> a read copies at most the requested number of bytes, from the descriptor's
    position, into guest physical memory at the address in the request's buffer
    field, and answers the number copied;
  \<^item> a seek sets the position relative to the start, the current position or the
    end, and answers it, or \<open>-EINVAL\<close> for a negative target or an unknown origin;
  \<^item> a close answers 0;
  \<^item> an unknown descriptor is answered with \<open>-EBADF\<close>.

  The host's only state is the descriptors' positions.  \<open>file_pos\<close> recomputes them
  by replaying the trace of earlier hypercalls, which records every read and seek
  request the host received, so the host is a function of the trace as the
  transport model requires.  Opening, writing and unlinking files on the host are
  not modelled.
\<close>

section \<open>Definitions\<close>

definition whence_base :: "i32 \<Rightarrow> nat \<Rightarrow> nat \<Rightarrow> int option" where
  "whence_base w flen pos =
     (if w = 0 then Some 0 else if w = 1 then Some (int pos) else if w = 2 then Some (int flen) else None)"

definition seek_target :: "nat \<Rightarrow> nat \<Rightarrow> SysLseek \<Rightarrow> nat option" where
  "seek_target flen pos q =
     (case whence_base (lseek_whence q) flen pos of
        None \<Rightarrow> None
      | Some b \<Rightarrow> if 0 \<le> b + sint (lseek_offset q) then Some (nat (b + sint (lseek_offset q))) else None)"

definition read_chunk :: "bytes \<Rightarrow> nat \<Rightarrow> SysRead \<Rightarrow> bytes" where
  "read_chunk d pos q = take (unat (read_len q)) (drop pos d)"

definition pos_step :: "(i32 \<Rightarrow> bytes option) \<Rightarrow> i32 \<Rightarrow> nat \<Rightarrow> hcall \<Rightarrow> nat" where
  "pos_step files fd pos hc =
     (case files fd of
        None \<Rightarrow> pos
      | Some d \<Rightarrow>
          if hc_port hc = UHYVE_PORT_READ \<and> read_fd (decode_SysRead (hc_frame hc)) = fd
          then pos + length (read_chunk d pos (decode_SysRead (hc_frame hc)))
          else if hc_port hc = UHYVE_PORT_LSEEK \<and> lseek_fd (decode_SysLseek (hc_frame hc)) = fd
          then (case seek_target (length d) pos (decode_SysLseek (hc_frame hc)) of None \<Rightarrow> pos | Some p \<Rightarrow> p)
          else pos)"

definition file_pos :: "(i32 \<Rightarrow> bytes option) \<Rightarrow> hcall list \<Rightarrow> i32 \<Rightarrow> nat" where
  "file_pos files tr fd = foldl (pos_step files fd) 0 tr"

definition file_host :: "(i32 \<Rightarrow> bytes option) \<Rightarrow> host_fn" where
  "file_host files tr p a m =
     (if p = UHYVE_PORT_READ then
        (let q = decode_SysRead (read_bytes m a 28) in
         case files (read_fd q) of
           None \<Rightarrow> write_bytes m a (encode_SysRead (q\<lparr>read_ret := -9\<rparr>))
         | Some d \<Rightarrow>
             (let bs = read_chunk d (file_pos files tr (read_fd q)) q in
              write_bytes (write_bytes m (read_buf q) bs) a
                (encode_SysRead (q\<lparr>read_ret := word_of_nat (length bs)\<rparr>))))
      else if p = UHYVE_PORT_LSEEK then
        (let q = decode_SysLseek (read_bytes m a 16) in
         case files (lseek_fd q) of
           None \<Rightarrow> write_bytes m a (encode_SysLseek (q\<lparr>lseek_offset := -9\<rparr>))
         | Some d \<Rightarrow>
             write_bytes m a (encode_SysLseek (q\<lparr>lseek_offset :=
               (case seek_target (length d) (file_pos files tr (lseek_fd q)) q of
                  None \<Rightarrow> -22 | Some p \<Rightarrow> word_of_nat p)\<rparr>)))
      else if p = UHYVE_PORT_CLOSE then
        write_bytes m a (encode_SysClose ((decode_SysClose (read_bytes m a 8))\<lparr>close_ret := 0\<rparr>))
      else m)"

text \<open>
  A host with one open descriptor, 3, for a four-byte file, and an AArch64
  environment whose paging maps every virtual address 1 MiB higher, used by the
  concrete examples.
\<close>

definition demo_files :: "i32 \<Rightarrow> bytes option" where
  "demo_files = (\<lambda>_. None)(3 \<mapsto> [1, 2, 3, 4])"

definition file_env :: env where
  "file_env = \<lparr>arch = AArch64, v2p = (\<lambda>va. Some (va + 0x100000)), host = file_host demo_files,
               stack_va = 0x1000, heap_va = 0x2000\<rparr>"

section \<open>Lemmas\<close>

lemma send_frame_exact:
  assumes "exact_transport e pa" and "length req \<le> 2 ^ 64"
  shows "send_frame e port req s =
    (let m' = host e (trace s) port pa (write_bytes (mem s) pa req) in
     Inr (read_bytes m' pa (length req),
          s\<lparr>mem := m', trace := trace s @ [\<lparr>hc_port = port, hc_addr = pa, hc_frame = req\<rparr>]\<rparr>))"
  using assms send_frame_mapped [of e pa req port s] by (simp add: exact_transport_def Let_def)

lemma file_pos_snoc [simp]: "file_pos files (tr @ [hc]) fd = pos_step files fd (file_pos files tr fd) hc"
  by (simp add: file_pos_def)

lemma read_write_frame:
  "length bs = n \<Longrightarrow> n \<le> 2 ^ 64 \<Longrightarrow> read_bytes (write_bytes m a bs) a n = bs"
  using read_write_bytes_same [of bs m a] by simp

lemma lseek_file_host:
  fixes s :: "'a tstate_scheme"
  assumes ex: "exact_transport e pa" and h: "host e = file_host files" and f: "files fd = Some d"
    and q: "SysLseek_new fd off wh = Inr q"
  defines "r \<equiv> (case seek_target (length d) (file_pos files (trace s) fd) q of None \<Rightarrow> -22 | Some p \<Rightarrow> word_of_nat p)"
  shows "Inner_lseek e fd off wh s =
    Inr (if 0 \<le> sint r then Ok r else Err EINVAL,
         s\<lparr>mem := write_bytes (write_bytes (mem s) pa (encode_SysLseek q)) pa
                    (encode_SysLseek (q\<lparr>lseek_offset := r\<rparr>)), trace := trace s @ [\<lparr>hc_port = UHYVE_PORT_LSEEK, hc_addr = pa, hc_frame = encode_SysLseek q\<rparr>]\<rparr>)"
proof -
  have fd: "lseek_fd q = fd" using q by (auto simp: SysLseek_new_def fbind_eq_Inr)
  show ?thesis
    using f fd
    by (simp add: Inner_lseek_def q send_frame_exact [OF ex] h file_host_def read_write_frame r_def Let_def)
qed

lemma read_file_host:
  fixes s :: "'a tstate_scheme" and buf :: u64 and len :: usize
  assumes ex: "exact_transport e pa" and h: "host e = file_host files" and f: "files fd = Some d"
    and small: "length d < 2 ^ 63"
  defines "bs \<equiv> read_chunk d (file_pos files (trace s) fd) (SysRead_new fd buf len)"
  defines "req \<equiv> encode_SysRead (SysRead_new fd buf len)"
  shows "Inner_read e fd buf len s =
    Inr (Ok (word_of_nat (length bs)),
         s\<lparr>mem := write_bytes (write_bytes (write_bytes (mem s) pa req) buf bs) pa
                    (encode_SysRead ((SysRead_new fd buf len)\<lparr>read_ret := word_of_nat (length bs)\<rparr>)),
           trace := trace s @ [\<lparr>hc_port = UHYVE_PORT_READ, hc_addr = pa, hc_frame = req\<rparr>]\<rparr>)"
proof -
  have "length bs \<le> length d" by (simp add: bs_def read_chunk_def)
  then have lt: "length bs < 2 ^ 63" using small by simp
  have pos: "0 \<le> sint (word_of_nat (length bs) :: isize)"
  proof -
    have "sint (word_of_nat (length bs) :: isize) = int (length bs)"
      using lt by (simp add: signed_of_nat signed_take_bit_int_eq_self)
    then show ?thesis by simp
  qed
  show ?thesis
    using f pos
    by (simp add: Inner_read_def send_frame_exact [OF ex] h file_host_def read_write_frame bs_def req_def
        SysRead_new_def Let_def)
qed

lemma word_of_nat_nat_sint: "0 \<le> sint (w :: 'a::len word) \<Longrightarrow> word_of_nat (nat (sint w)) = w"
proof -
  assume "0 \<le> sint w"
  then have "(word_of_nat (nat (sint w)) :: 'a word) = of_int (sint w)"
    by (metis int_nat_eq of_int_of_nat_eq)
  then show ?thesis by (simp add: of_int_sint)
qed

lemma seek_target_set:
  "0 \<le> sint off \<Longrightarrow> seek_target n pos \<lparr>lseek_fd = fd, lseek_offset = off, lseek_whence = 0\<rparr> = Some (nat (sint off))"
  by (simp add: seek_target_def whence_base_def)

lemma seek_set_file_host:
  assumes ex: "exact_transport e pa" and h: "host e = file_host files" and f: "files fd = Some d"
    and o: "0 \<le> sint off"
  shows "\<exists>s1. Inner_lseek e fd off Set s = Inr (Ok off, s1) \<and> file_pos files (trace s1) fd = nat (sint off)"
proof -
  let ?q = "\<lparr>lseek_fd = fd, lseek_offset = off, lseek_whence = 0\<rparr>"
  have q: "SysLseek_new fd off Set = Inr ?q" by (simp add: SysLseek_new_def)
  show ?thesis
    using lseek_file_host [OF ex h f q, of s] o f
    by (simp add: seek_target_set word_of_nat_nat_sint pos_step_def)
qed

text \<open>
  C28.  Seek then read, round trip through the host: \<open>lseek(off, Set)\<close> returns
  the host's absolute offset \<open>off\<close>, and a following read returns the number of
  bytes the host copies from that offset on, at most the requested length.  The
  kernel keeps no position of its own.
\<close>

theorem seek_then_read:
  assumes "exact_transport e pa" and "host e = file_host files" and "files fd = Some d"
    and "length d < 2 ^ 63" and "0 \<le> sint off"
  shows "\<exists>s1 s2. Inner_lseek e fd off Set s = Inr (Ok off, s1) \<and>
    Inner_read e fd buf len s1 = Inr (Ok (word_of_nat (length (take (unat len) (drop (nat (sint off)) d)))), s2)"
proof -
  obtain s1 where l: "Inner_lseek e fd off Set s = Inr (Ok off, s1)" and p: "file_pos files (trace s1) fd = nat (sint off)"
    using seek_set_file_host [OF assms(1-3,5)] by blast
  show ?thesis
    using l read_file_host [OF assms(1-4), where s = s1 and buf = buf and len = len] p by (simp add: read_chunk_def SysRead_new_def)
qed

text \<open>
  C29.  Where a read's bytes land: the host copies them into guest physical memory
  at the address in the request's buffer field, which is the caller's virtual
  address, untranslated (C18).  When that range does not overlap the request frame,
  physical memory there holds the file's bytes after the call, whatever the page
  mapping says the buffer's physical address is.
\<close>

theorem read_data_at_buffer_field:
  assumes "exact_transport e pa" and "host e = file_host files" and "files fd = Some d"
    and "length d < 2 ^ 63"
    and "\<forall>i < length (read_chunk d (file_pos files (trace s) fd) (SysRead_new fd buf len)).
           28 \<le> unat (buf + word_of_nat i - pa)"
  shows "\<exists>s'. Inner_read e fd buf len s = Inr (Ok (word_of_nat (length (read_chunk d (file_pos files (trace s) fd) (SysRead_new fd buf len)))), s') \<and>
    read_bytes (mem s') buf (length (read_chunk d (file_pos files (trace s) fd) (SysRead_new fd buf len))) =
      read_chunk d (file_pos files (trace s) fd) (SysRead_new fd buf len)"
proof -
  let ?bs = "read_chunk d (file_pos files (trace s) fd) (SysRead_new fd buf len)"
  have len: "length ?bs \<le> 2 ^ 64" using assms(4) by (simp add: read_chunk_def)
  have "read_bytes (write_bytes m1 pa f) buf (length ?bs) = read_bytes m1 buf (length ?bs)"
    if "length f = 28" for m1 f
    using assms(5) that by (simp add: read_bytes_def write_bytes_outside)
  then show ?thesis
    using read_file_host [OF assms(1-4), where s = s and buf = buf and len = len] read_write_bytes_same [OF len] by simp
qed

lemma write_bytes_Nil [simp]: "write_bytes m a [] = m"
  by (simp add: write_bytes_def)

lemma file_env_exact: "exact_transport file_env 0x101000 \<and> host file_env = file_host demo_files"
  by (simp add: exact_transport_def file_env_def port_value_def)

text \<open>
  C30.  A read of length 0 is forwarded unchanged and returns 0 bytes without a
  panic; no guest memory outside the request frame changes.
\<close>

theorem zero_length_read:
  assumes "exact_transport e pa" and "host e = file_host files" and "files fd = Some d"
    and "length d < 2 ^ 63"
  shows "\<exists>s'. Inner_read e fd buf 0 s = Inr (Ok 0, s') \<and> (\<forall>x. 28 \<le> unat (x - pa) \<longrightarrow> mem s' x = mem s x)"
  using read_file_host [OF assms, where s = s and buf = buf and len = 0]
  by (auto simp: read_chunk_def SysRead_new_def write_bytes_outside)

theorem seek_then_read_witness:
  "\<exists>s1 s2. Inner_lseek file_env 3 1 Set fh_demo_state = Inr (Ok 1, s1) \<and>
     Inner_read file_env 3 0x5000 2 s1 = Inr (Ok 2, s2)"
proof -
  have f: "demo_files 3 = Some [1, 2, 3, 4]" by (simp add: demo_files_def)
  show ?thesis
    using seek_then_read [OF conjunct1 [OF file_env_exact] conjunct2 [OF file_env_exact] f,
        where off = 1 and s = fh_demo_state and buf = "0x5000" and len = 2]
    by simp
qed

theorem read_data_at_buffer_field_witness:
  "v2p file_env 0x5000 = Some 0x105000 \<and>
   (\<exists>s'. Inner_read file_env 3 0x5000 2 fh_demo_state = Inr (Ok 2, s') \<and> read_bytes (mem s') 0x5000 2 = [1, 2])"
proof -
  have f: "demo_files 3 = Some [1, 2, 3, 4]" by (simp add: demo_files_def)
  have c: "read_chunk [1, 2, 3, 4] (file_pos demo_files (trace fh_demo_state) 3) (SysRead_new 3 0x5000 2) = [1, 2]"
    by (simp add: read_chunk_def file_pos_def fh_demo_state_def SysRead_new_def)
  have d: "\<forall>i < length (read_chunk [1, 2, 3, 4] (file_pos demo_files (trace fh_demo_state) 3) (SysRead_new 3 0x5000 2)).
      28 \<le> unat (0x5000 + word_of_nat i - (0x101000 :: u64))"
    unfolding c
  proof (intro allI impI)
    fix i :: nat assume "i < length [1, 2 :: u8]"
    then have "i = 0 \<or> i = 1" by auto
    then show "28 \<le> unat (0x5000 + word_of_nat i - (0x101000 :: u64))" by auto
  qed
  have small: "length [1, 2, 3, 4 :: u8] < 2 ^ 63" by simp
  obtain s' where a: "Inner_read file_env 3 0x5000 2 fh_demo_state =
      Inr (Ok (word_of_nat (length (read_chunk [1, 2, 3, 4] (file_pos demo_files (trace fh_demo_state) 3) (SysRead_new 3 0x5000 2)))), s')"
    and b: "read_bytes (mem s') 0x5000 (length (read_chunk [1, 2, 3, 4] (file_pos demo_files (trace fh_demo_state) 3) (SysRead_new 3 0x5000 2))) =
      read_chunk [1, 2, 3, 4] (file_pos demo_files (trace fh_demo_state) 3) (SysRead_new 3 0x5000 2)"
    using read_data_at_buffer_field [OF conjunct1 [OF file_env_exact] conjunct2 [OF file_env_exact] f small d] by blast
  have "Inner_read file_env 3 0x5000 2 fh_demo_state = Inr (Ok 2, s')" "read_bytes (mem s') 0x5000 2 = [1, 2]"
    using a b unfolding c by (simp_all add: numeral_2_eq_2)
  then show ?thesis by (auto simp: file_env_def)
qed

theorem zero_length_read_witness:
  "\<exists>s'. Inner_read file_env 3 0x5000 0 fh_demo_state = Inr (Ok 0, s') \<and>
     (\<forall>x. 28 \<le> unat (x - 0x101000) \<longrightarrow> mem s' x = mem fh_demo_state x)"
proof -
  have f: "demo_files 3 = Some [1, 2, 3, 4]" by (simp add: demo_files_def)
  show ?thesis
    using zero_length_read [OF conjunct1 [OF file_env_exact] conjunct2 [OF file_env_exact] f,
        where s = fh_demo_state and buf = "0x5000"]
    by simp
qed

end
