(* ===== verification/Spec2Isabelle.thy ===== *)
theory Spec2Isabelle
  imports Mount LockProgress HandleSpec HostFS
begin

text \<open>
  \<^bold>\<open>A verification model of the uhyve filesystem bridge of the kernel.\<close>

  The program is one file, \<open>src/src/fs/uhyve.rs\<close>.  It lets the guest kernel open,
  read, write, seek, close and unlink files of a directory tree on the host running
  the uhyve hypervisor.  Every operation writes a fixed-layout request structure into
  guest memory and delivers the structure's physical address to one of six I/O ports;
  the host performs the operation synchronously and writes its result into the same
  structure.  Its parts, and the theory that models each:

  \<^item> \<open>Prelude\<close>: the Rust integer types as words (\<open>i32\<close> as \<open>32 word\<close> read with
    \<open>sint\<close>; pointers, \<open>usize\<close>, \<open>isize\<close> as \<open>64 word\<close>), \<open>Result\<close> as the datatype
    \<open>result\<close>, panics (\<open>unwrap\<close> of \<open>None\<close>, \<open>todo!\<close>, \<open>expect\<close>) as the datatype
    \<open>panic\<close> in the sum \<open>'a fallible\<close>, little-endian byte encodings
    (\<open>le_bytes\<close>, \<open>of_le_bytes\<close>), and guest physical memory as a byte map
    (\<open>read_bytes\<close>, \<open>write_bytes\<close>).
  \<^item> \<open>Wire\<close> (lines 56--154): the port constants \<open>UHYVE_PORT_*\<close>; the records
    \<open>SysOpen\<close>, \<open>SysClose\<close>, \<open>SysRead\<close>, \<open>SysWrite\<close>, \<open>SysLseek\<close>,
    \<open>SysUnlink\<close> with their constructors \<open>Sys*_new\<close>; their packed layouts
    \<open>encode_Sys*\<close>/\<open>decode_Sys*\<close>; the datatype \<open>wire\<close> of all six with the port
    each is sent to.  The external enumerations \<open>SeekWhence\<close> and \<open>IoError\<close> are
    modelled from the specification, \<open>IoError\<close> with the positive POSIX errno values
    as discriminants, which is what \<open>num::FromPrimitive\<close> matches against.
  \<^item> \<open>Transport\<close> (lines 19--54): \<open>uhyve_send\<close> for x86-64 (\<open>outl\<close> of the address
    truncated to 32 bits, \<open>port_value\<close>), AArch64 (64-bit store) and RISC-V
    (\<open>todo!\<close>).  The environment \<open>env\<close> holds what the code does not control: the
    target, the paging collaborator \<open>v2p\<close>, the host, and the virtual addresses of
    the caller's request structure and path string.  The state \<open>tstate\<close> is guest
    physical memory with the trace of hypercalls.  \<open>send_frame\<close> is the pattern of
    every call site: the local structure lies at the physical address of its stack
    slot, is sent, and is read back.  The host is any function of the trace, the port,
    the delivered value and memory; \<open>typed_host\<close> builds one from an answer per
    request kind (\<open>host_spec\<close>).
  \<^item> \<open>FileHandle\<close> (lines 156--228): \<open>Inner_read\<close>, \<open>Inner_write\<close>,
    \<open>Inner_lseek\<close> and the \<open>Drop\<close> of the inner handle (\<open>Inner_drop\<close>); the
    \<open>Arc\<close>-shared handle as a store \<open>arcs\<close> of cells with strong counts
    (\<open>UhyveFileHandle_new\<close>, \<open>_clone\<close>, \<open>_drop\<close>, \<open>_read\<close>, \<open>_write\<close>,
    \<open>_lseek\<close>), and the system of handles held by their users as the step relation
    \<open>fh_step\<close> with its reachable states \<open>fh_reach\<close>.
  \<^item> \<open>HandleLock\<close> (lines 210--222): the \<open>SpinMutex\<close> taken by
    \<open>self.0.lock()\<close> around each read, write and lseek, with several threads.
    \<open>lock_step\<close> moves a thread through four steps: it starts a call on a live
    handle, acquires the lock when it is free, runs the inner operation
    (\<open>fh_call_run\<close>, one hypercall), and releases the guard.  Ghost logs record the
    order in which locks were acquired and hypercalls run.
  \<^item> \<open>LockProgress\<close>: progress of that protocol, the end of the spin wait and
    the draining of all started calls.
  \<^item> \<open>HandleSpec\<close>: an abstract specification of the shared handle, a transition
    system over the held handles, the descriptor of each open handle and the log of
    closed descriptors.  It has no reference counts and nothing of memory or the
    trace.  \<open>abs_handles\<close> maps the concrete handle system onto it.
  \<^item> \<open>Directory\<close> (lines 230--305): path construction (\<open>open_path\<close>,
    \<open>unlink_path\<close>), the path string in memory (\<open>store_string\<close>),
    \<open>traverse_open\<close>, \<open>traverse_unlink\<close>, the five \<open>ENOSYS\<close> operations, and the
    VFS node contract as the datatype \<open>vfs_op\<close> with the dispatcher \<open>node_op\<close>.
  \<^item> \<open>Mount\<close> (lines 307--317): \<open>init\<close> over the once-initialised global mount
    table; the mount operation of the filesystem layer is modelled from the
    specification.
  \<^item> \<open>HostFS\<close>: the host's file service, modelled from the specification (the
    host is not code of the repository).  It serves reads, seeks and closes on a
    static table of open descriptors.  Read data is copied to the physical address
    in the request's buffer field.  Positions are replayed from the trace
    (\<open>file_host\<close>, \<open>file_pos\<close>).
  \<^item> This theory: the whole bridge as the step relation \<open>bridge_step\<close> (directory
    node operations and handle operations over one state).

  \<^bold>\<open>What is proved.\<close>
  The handle system closes every allocated handle exactly once, on the release of its
  last reference, and the Close hypercalls of the trace carry the handles'
  descriptors in the order of release (C1, and C14 for the whole bridge, with handles
  created by directory opens).  The six structures have the packed layout the host
  expects, a bijection with frames of their size (C2).  The value the port receives is
  the physical address only below 4 GiB on x86-64 (C3).  Under a host that answers
  typed requests over an exact transport (\<open>exact_transport\<close>: not RISC-V, the
  request mapped, the address delivered whole), read, write and lseek interpret the
  result fields as stated in C4--C6, open and unlink as in C10--C12; the directory's
  unsupported operations return \<open>ENOSYS\<close> without a hypercall and open/unlink make
  exactly one (C7); the path is \<open>/c1/c2/...\<close> (C8) but is not NUL-terminated
  (C9); \<open>init\<close> mounts once and fails fatally on a second mount (C13);.
  With several threads sharing handles, every step that issues a hypercall is taken
  by a thread inside a handle's guard while no other thread is inside it, before or
  after the step (C15), the hypercalls on a handle run in the order its lock was
  acquired (C16), and only the holder of a handle's lock issues hypercalls, exactly
  one per call, on the call's port (C17).  The buffer pointer of a read or write request is passed to the host as
  the caller's virtual address, while the request itself and the path of an open are
  translated to physical addresses (C18).
  The wait of \<open>SpinMutex::lock\<close> ends once the holder's call returns (C22).  When
  every started call returns, all threads can finish and all locks become free (C24).
  Both are statements that a finishing schedule exists; the model has no scheduler
  and proves no fairness among waiting threads.  Every hypercall the bridge issues
  is a well-typed request: its frame is a structure of the kind its port serves, of
  exactly that structure's size (C19).  The concrete handle system refines the
  abstract specification: every reachable concrete state maps to a reachable
  abstract one, so the strong counts implement "close exactly at the last release"
  (C20).  No operation on a held handle finds its allocation freed (C21).  Each
  decoded field is the little-endian positional value of its bytes, an equivalence
  of the bitwise decoder with the arithmetic reading \<open>le_value\<close> (C23).
  When the transport cannot deliver
  (RISC-V, or an unmapped request slot), every operation panics with the transport's
  panic (C25).  The path is translated before any hypercall, so an unmapped path
  buffer panics in \<open>SysOpen::new\<close> even on RISC-V (C26).  The root path of open is
  NUL-terminated, the root path of unlink is not (C27).
  Against the host model, \<open>lseek(off, Set)\<close> then read returns the host's offset
  and the bytes counted from there (C28).  The read's bytes land in physical memory
  at the untranslated buffer address, whatever the paging maps the buffer to (C29).
  A read of length 0 returns 0 and changes no memory outside the request (C30).
  The error paths are proved as they are written: every negated error code the host
  reports makes read, open and unlink panic in \<open>unwrap()\<close>, since \<open>from_i32\<close> and
  \<open>from_isize\<close> are applied to the negative value (C4, C11, C12).

  \<^bold>\<open>Bounds and fuel.\<close>  No loop of the code is unbounded: the only iteration is
  over the path components, structural recursion in the model.  Frames are at most 28
  bytes, far below the \<open>2^64\<close> bytes at which a region of memory would overlap itself,
  the one bound the memory lemmas need.  The spin loop inside \<open>SpinMutex::lock\<close>
  (external) is the one loop that may not end.  It is modelled as the absence of an
  \<open>acquire\<close> step while the lock is held, not with fuel; C22 and C24 show when it
  ends.  Strong counts are unbounded naturals: the
  model does not reproduce \<open>Arc\<close>'s abort on count overflow.

  \<^bold>\<open>Not modelled.\<close>  The lock protocol of \<open>HandleLock\<close> runs over a fixed set of
  handles.  A thread borrows \<open>&self\<close> of a live handle for the whole call.  The lock
  protocol and the clone/drop steps of \<open>FileHandle\<close> are proved separately: the
  results C15--C17, C22 and C24 are stated for the protocol alone, C1, C20 and C21 for
  the handle system, and no theory interleaves the two.  Spinning is
  not a step: a waiting thread simply takes no \<open>acquire\<close> step while the lock
  is held.  Fairness of the spin lock is not
  modelled.  The host model of \<open>HostFS\<close> covers reads, seeks and closes
  on descriptors that are already open.  Opening, writing and unlinking host files,
  and the bytes a write transfers, are not modelled there; open and unlink are
  covered against any typed host (C10--C12).  The log
  messages of \<open>init\<close>, \<open>OpenOption\<close>'s bit encoding (the model takes the bits), the
  paging subsystem, the hypervisor detection and the VFS layers are external
  collaborators and appear as parameters.
\<close>

section \<open>Definitions\<close>

text \<open>
  The bridge as one system: a step is a call of the directory node (a successful open
  hands its caller a reference to a new handle) or a step of the handle system.
\<close>

definition held_after :: "(node_ret, IoError) result \<Rightarrow> handle multiset \<Rightarrow> handle multiset" where
  "held_after r H = (case r of Ok (R_object h) \<Rightarrow> add_mset h H | _ \<Rightarrow> H)"

inductive bridge_step :: "env \<Rightarrow> handle multiset \<times> 'a fstate_scheme \<Rightarrow> handle multiset \<times> 'a fstate_scheme \<Rightarrow> bool"
  for e where
  bridge_node: "node_op e op s = Inr (r, s') \<Longrightarrow> bridge_step e (H, s) (held_after r H, s')"
| bridge_handle: "fh_step e \<sigma> \<sigma>' \<Longrightarrow> bridge_step e \<sigma> \<sigma>'"

inductive bridge_reach :: "env \<Rightarrow> handle multiset \<times> 'a fstate_scheme \<Rightarrow> bool" for e where
  bridge_start: "fh_init \<sigma> \<Longrightarrow> bridge_reach e \<sigma>"
| bridge_next: "bridge_reach e \<sigma> \<Longrightarrow> bridge_step e \<sigma> \<sigma>' \<Longrightarrow> bridge_reach e \<sigma>'"

section \<open>Lemmas\<close>

lemma node_op_inv:
  assumes inv: "fh_inv (H, s)" and run: "node_op e op s = Inr (r, s')"
  shows "fh_inv (held_after r H, s')"
proof (cases op)
  case (Op_open cs opt)
  from run Op_open obtain r0 where t: "traverse_open e cs opt s = Inr (r0, s')"
    and r: "r = map_result R_object r0"
    by (auto simp: fbind_eq_Inr)
  from traverse_open_effect [OF t] obtain s2 where acc: "accesses UHYVE_PORT_OPEN s s2"
    and k: "case r0 of Ok h \<Rightarrow> \<exists>fd. UhyveFileHandle_new fd s2 = (h, s') | Err err \<Rightarrow> s' = s2"
    by blast
  have inv2: "fh_inv (H, s2)" by (rule fh_inv_accesses [OF inv acc]) simp
  show ?thesis
  proof (cases r0)
    case (Ok h)
    with k obtain fd where "UhyveFileHandle_new fd s2 = (h, s')" by auto
    with inv2 have "fh_inv (add_mset h H, s')" by (rule fh_inv_new)
    with Ok r show ?thesis by (simp add: held_after_def map_result_def)
  next
    case (Err err)
    with k r inv2 show ?thesis by (simp add: held_after_def map_result_def)
  qed
next
  case (Op_unlink cs)
  from run Op_unlink obtain r0 where t: "traverse_unlink e cs s = Inr (r0, s')"
    and r: "r = map_result (\<lambda>_. R_unit) r0"
    by (auto simp: fbind_eq_Inr)
  have "fh_inv (H, s')" by (rule fh_inv_accesses [OF inv traverse_unlink_effect [OF t]]) simp
  then show ?thesis using r by (cases r0) (simp_all add: held_after_def map_result_def)
qed (use run inv in \<open>auto simp: held_after_def map_result_def traverse_opendir_def traverse_stat_def
      traverse_lstat_def traverse_rmdir_def traverse_mkdir_def\<close>)

lemma bridge_reach_inv: "bridge_reach e \<sigma> \<Longrightarrow> fh_inv \<sigma>"
proof (induction rule: bridge_reach.induct)
  case (bridge_start \<sigma>)
  then show ?case by (rule fh_init_inv)
next
  case (bridge_next \<sigma> \<sigma>')
  from bridge_next.hyps(2) bridge_next.IH show ?case
  proof (induction rule: bridge_step.induct)
    case (bridge_node op s r s' H)
    then show ?case by (blast intro: node_op_inv)
  next
    case (bridge_handle \<sigma> \<sigma>')
    then show ?case by (rule fh_step_inv)
  qed
qed

text \<open>
  C14: in every reachable state of the whole bridge, where handles are created by
  opens through the directory node and then cloned, dropped and used, each allocated
  handle has been closed exactly once if no reference to it is held and never while
  one is, and the Close hypercalls of the trace carry the descriptors of the closed
  handles in the order they were closed.
\<close>

theorem bridge_close_exactly_once:
  assumes "bridge_reach e (H, s)" and "h < next_arc s"
  shows "count (mset (map fst (closed s))) h = (if h \<in># H then 0 else 1) \<and> close_fds (trace s) = map snd (closed s)"
proof -
  have inv: "fh_inv (H, s)" by (rule bridge_reach_inv [OF assms(1)])
  show ?thesis using fh_inv_close_count [OF inv assms(2)] fh_invD(5) [OF inv] by simp
qed

theorem bridge_close_exactly_once_witness:
  "\<exists>s :: fstate. bridge_reach (demo_env demo_host) ({#}, s) \<and> 0 < next_arc s \<and>
     count (mset (map fst (closed s))) 0 = 1 \<and> close_fds (trace s) = [3]"
proof -
  obtain s1 where o: "node_op (demo_env demo_host) (Op_open [''tmp'', ''x''] 0x241) fh_demo_state = Inr (Ok (R_object 0), s1)"
    by (simp add: traverse_open_def SysOpen_new_def send_frame_demo_kinds UhyveFileHandle_new_def
        fh_demo_state_def map_result_def Let_def)
  obtain s2 where d: "UhyveFileHandle_drop (demo_env demo_host) 0 s1 = Inr s2"
    using o
    by (auto simp: traverse_open_def SysOpen_new_def send_frame_demo_kinds UhyveFileHandle_new_def
        fh_demo_state_def map_result_def Let_def fbind_eq_Inr UhyveFileHandle_drop_def with_cell_def
        Inner_drop_def)
  have r0: "bridge_reach (demo_env demo_host) ({#}, fh_demo_state)"
    by (rule bridge_start) (simp add: fh_init_def fh_demo_state_def close_fds_def)
  have r1: "bridge_reach (demo_env demo_host) ({#0#}, s1)"
    using bridge_next [OF r0 bridge_node [OF o]] by (simp add: held_after_def)
  have r2: "bridge_reach (demo_env demo_host) ({#}, s2)"
    using bridge_next [OF r1 bridge_handle [OF fh_drop [OF _ d]]] by simp
  have nx: "next_arc s2 = 1"
    using o d
    by (auto simp: traverse_open_def SysOpen_new_def send_frame_demo_kinds UhyveFileHandle_new_def
        fh_demo_state_def map_result_def Let_def fbind_eq_Inr UhyveFileHandle_drop_def with_cell_def
        Inner_drop_def)
  have "count (mset (map fst (closed s2))) 0 = (if 0 \<in># ({#} :: nat multiset) then 0 else 1)
      \<and> close_fds (trace s2) = map snd (closed s2)"
    using bridge_close_exactly_once [OF r2] nx by simp
  moreover have "map snd (closed s2) = [3]"
    using o d
    by (auto simp: traverse_open_def SysOpen_new_def send_frame_demo_kinds UhyveFileHandle_new_def
        fh_demo_state_def map_result_def Let_def fbind_eq_Inr UhyveFileHandle_drop_def with_cell_def
        Inner_drop_def)
  ultimately have "count (mset (map fst (closed s2))) 0 = 1" "close_fds (trace s2) = [3]"
    by simp_all
  with r2 nx show ?thesis by auto
qed

text \<open>
  C19.  Every hypercall the bridge issues is well-typed: a step of the bridge, a
  directory-node call or a handle operation, appends at most one hypercall to the
  trace, and that hypercall's frame is a request of the kind its port serves, of
  exactly that request's size.
\<close>

theorem bridge_step_typed:
  "bridge_step e \<sigma> \<sigma>' \<Longrightarrow>
   \<exists>new. trace (snd \<sigma>') = trace (snd \<sigma>) @ new \<and> length new \<le> 1 \<and> list_all hcall_typed new"
proof (induction rule: bridge_step.induct)
  case (bridge_node op s r s' H)
  then show ?case using node_op_typed [OF bridge_node] by (auto simp: typed_access_def)
next
  case (bridge_handle \<sigma> \<sigma>')
  then show ?case using fh_step_typed [OF bridge_handle] by (auto simp: typed_access_def)
qed

theorem bridge_step_typed_witness:
  "\<exists>\<sigma>'. bridge_step (demo_env demo_host) ({#}, fh_demo_state) \<sigma>' \<and>
     (\<exists>new. trace (snd \<sigma>') = trace (snd ({#}, fh_demo_state)) @ new \<and> length new \<le> 1 \<and>
            list_all hcall_typed new) \<and> length (trace (snd \<sigma>')) = 1"
proof -
  obtain r s' where op: "node_op (demo_env demo_host) (Op_open [''tmp'', ''x''] 0x241) fh_demo_state = Inr (r, s')"
    and tr: "length (trace s') = 1"
    by (simp add: traverse_open_def SysOpen_new_def send_frame_demo_kinds UhyveFileHandle_new_def
        fh_demo_state_def Let_def)
  have st: "bridge_step (demo_env demo_host) ({#}, fh_demo_state) (held_after r {#}, s')"
    by (rule bridge_node [OF op])
  show ?thesis using bridge_step_typed [OF st] st tr by auto
qed

end
